theory Spec2Isabelle
  imports Complex_Main "HOL-Library.Sublist"
begin

section \<open>Python strings\<close>

text \<open>
  A Python \<open>str\<close> is modelled as the list of its code points. The type \<open>char\<close> covers the
  code points 0..255, so the texts of the model are Latin-1 texts; \<open>length\<close> counts code
  points, as Python's \<open>len\<close> does.
\<close>

definition contains :: "string \<Rightarrow> string \<Rightarrow> bool" where
  \<comment> \<open>\<open>needle in hay\<close>\<close>
  "contains needle hay = sublist needle hay"

definition startswith :: "string \<Rightarrow> string \<Rightarrow> bool" where
  \<comment> \<open>\<open>s.startswith(p)\<close>\<close>
  "startswith s p = prefix p s"

definition lower_char :: "char \<Rightarrow> char" where
  "lower_char c =
     (let n = (of_char c :: nat)
      in if (65 \<le> n \<and> n \<le> 90) \<or> (192 \<le> n \<and> n \<le> 222 \<and> n \<noteq> 215)
         then char_of (n + 32) else c)"

definition lower :: "string \<Rightarrow> string" where
  \<comment> \<open>\<open>s.lower()\<close>\<close>
  "lower s = map lower_char s"

definition is_space :: "char \<Rightarrow> bool" where
  \<comment> \<open>the code points below 256 that \<open>str.strip()\<close> removes\<close>
  "is_space c =
     (let n = (of_char c :: nat)
      in (9 \<le> n \<and> n \<le> 13) \<or> (28 \<le> n \<and> n \<le> 32) \<or> n = 133 \<or> n = 160)"

definition lstrip :: "string \<Rightarrow> string" where
  "lstrip s = dropWhile is_space s"

definition strip :: "string \<Rightarrow> string" where
  "strip s = rev (dropWhile is_space (rev (dropWhile is_space s)))"

fun join :: "string \<Rightarrow> string list \<Rightarrow> string" where
  \<comment> \<open>\<open>sep.join(xs)\<close>\<close>
  "join sep [] = []"
| "join sep [x] = x"
| "join sep (x # y # ys) = x @ sep @ join sep (y # ys)"

definition is_linebreak :: "char \<Rightarrow> bool" where
  \<comment> \<open>the line boundaries of \<open>str.splitlines()\<close> below 256, the pair CR LF apart\<close>
  "is_linebreak c =
     (let n = (of_char c :: nat)
      in (10 \<le> n \<and> n \<le> 13) \<or> (28 \<le> n \<and> n \<le> 30) \<or> n = 133)"

fun splitlines_from :: "string \<Rightarrow> string \<Rightarrow> string list" where
  "splitlines_from cur [] = (if cur = [] then [] else [cur])"
| "splitlines_from cur (c # cs) =
     (if c = CHR 0x0D then
        (case cs of
           [] \<Rightarrow> [cur]
         | d # ds \<Rightarrow>
             if d = CHR 0x0A then cur # splitlines_from [] ds
             else cur # splitlines_from [] (d # ds))
      else if is_linebreak c then cur # splitlines_from [] cs
      else splitlines_from (cur @ [c]) cs)"

definition splitlines :: "string \<Rightarrow> string list" where
  \<comment> \<open>\<open>s.splitlines()\<close>\<close>
  "splitlines s = splitlines_from [] s"

section \<open>Caption tracks (youtube\_transcript\_api)\<close>

record segment =
  seg_text :: "string option"
  \<comment> \<open>\<open>seg.get("text")\<close>: \<open>None\<close> when the key is missing\<close>

record transcript =
  language :: string
  language_code :: string
  fetch :: "string + segment list"
  \<comment> \<open>what \<open>t.fetch()\<close> does: \<open>Inl msg\<close> raises an exception with \<open>str(e) = msg\<close>\<close>

definition english_variants :: "string list" where
  "english_variants = [''english'', ''en'', ''en-us'', ''en-gb'']"

definition is_english_transcript :: "transcript \<Rightarrow> bool" where
  "is_english_transcript t =
     (let ln = lower (language t); lc = lower (language_code t)
      in list_ex (\<lambda>v. contains v ln \<or> v = lc) english_variants)"

fun split_transcripts ::
  "transcript list \<Rightarrow> transcript list \<Rightarrow> transcript list \<Rightarrow> transcript list \<times> transcript list"
where
  "split_transcripts [] english_matches others = (english_matches, others)"
| "split_transcripts (t # ts) english_matches others =
     (if is_english_transcript t
      then split_transcripts ts (english_matches @ [t]) others
      else split_transcripts ts english_matches (others @ [t]))"

definition all_attempts :: "transcript list \<Rightarrow> transcript list" where
  "all_attempts transcripts =
     (let (english_matches, others) = split_transcripts transcripts [] []
      in take 3 english_matches @ take 1 others)"

section \<open>The outside world and the state of a run\<close>

text \<open>
  Exceptions of the libraries are modelled by their message \<open>str(e)\<close>; the only other
  exception of the program is FastAPI's \<open>HTTPException(status_code, detail)\<close>.
\<close>

datatype py_exception = PyException string | HTTPException nat string

datatype 'a field = Missing | PyNone | Val 'a
  \<comment> \<open>a key of a dict: absent, present with the value \<open>None\<close>, or present with a value\<close>

datatype number = IntNum int | FloatNum rat
  \<comment> \<open>a Python \<open>int\<close>, or a \<open>float\<close> by its value (yt-dlp gives a duration as either)\<close>

record track =
  url :: "string option"
  \<comment> \<open>\<open>cand.get("url")\<close>\<close>

datatype track_value = TrackList "track list" | NotAList
  \<comment> \<open>a value of the subtitle maps: \<open>isinstance(items, list)\<close> or not\<close>

record info =
  title :: "string field"
  description :: "string field"
  uploader :: "string field"
  duration :: "number field"
  view_count :: "int field"
  upload_date :: "string field"
  subtitles :: "(string \<times> track_value) list"
  automatic_captions :: "(string \<times> track_value) list"
  \<comment> \<open>the two maps as \<open>info.get(...) or {}\<close> gives them, in insertion order\<close>

datatype extract_outcome = ExtractRaises string | ExtractNone | ExtractInfo info
  \<comment> \<open>\<open>ydl.extract_info\<close>: raises, returns a falsy value, or returns the info dict\<close>

datatype http_outcome = HttpRaises string | HttpResponse int string
  \<comment> \<open>\<open>requests.get\<close>: raises, or answers with \<open>status_code\<close> and the decoded body\<close>

datatype prompt_kind = BulletPrompt int | ComprehensivePrompt | DetailedPrompt | ShortPrompt

datatype prompt = ChunkPrompt prompt_kind string | MergePrompt prompt_kind string
  \<comment> \<open>which of the prompt templates is filled in, and the text put into it\<close>

record world =
  list_transcripts :: "string \<Rightarrow> string + transcript list"
  extract_info :: "nat \<Rightarrow> string \<Rightarrow> string list \<Rightarrow> extract_outcome"
  http_get :: "nat \<Rightarrow> string \<Rightarrow> http_outcome"
  clock :: "nat \<Rightarrow> rat"
  urljoin :: "string \<Rightarrow> string \<Rightarrow> string"
  json_segs :: "string \<Rightarrow> string list"
  fmt_1f :: "int \<Rightarrow> int \<Rightarrow> string"
  gemini_key :: bool
  generate_content :: "nat \<Rightarrow> prompt \<Rightarrow> nat \<Rightarrow> string + string"
  format_summary_output :: "string \<Rightarrow> string \<Rightarrow> string"

text \<open>
  The fields of \<open>world\<close> are what the program cannot decide by itself. The first argument of
  \<open>extract_info\<close>, \<open>http_get\<close>, \<open>clock\<close> and \<open>generate_content\<close> is the number of earlier
  calls of the same kind in the run, so that the network may answer every call differently.
  \<^item> \<open>extract_info n video_url player_client\<close> is \<open>YoutubeDL(ydl_opts).extract_info\<close>
    under the client identity \<open>player_client\<close>;
  \<^item> \<open>clock n\<close> is the value, in seconds, of the double that \<open>time.time()\<close> returns;
  \<^item> \<open>urljoin\<close> is \<open>urllib.parse.urljoin\<close>;
  \<^item> \<open>json_segs s\<close> is the list of stripped non-empty \<open>utf8\<close> texts that the
    \<open>json.loads\<close> block of \<open>_subtitle_to_plain\<close> collects, \<open>[]\<close> when it raises;
  \<^item> \<open>fmt_1f n d\<close> is the float formatting \<open>f"{n/d:.1f}"\<close>;
  \<^item> \<open>gemini_key\<close> is the truth value of \<open>GEMINI_KEY\<close>;
  \<^item> \<open>generate_content n prompt max_output_tokens\<close> is \<open>_safe_gemini_text\<close> of the
    model's answer, \<open>Inl\<close> when the call raises;
  \<^item> \<open>format_summary_output\<close> is the HTML formatter, left uninterpreted.
\<close>

datatype log_msg =
    LogAttemptingTranscriptApi
  | LogFetchingTranscript nat nat string string
  | LogTranscriptFetched string
  | LogTranscriptXmlEmpty
  | LogTranscriptAttemptFailed nat string
  | LogTranscriptApiFailed string
  | LogTryingStrategy nat nat "string list"
  | LogExtractionSuccessful "string list"
  | LogStrategyFailed "string list" string
  | LogAttemptingYtdlp
  | LogTimeoutApproaching
  | LogDetectedHls
  | LogSegmentFetchFailed string
  | LogFetchedHlsSegments nat
  | LogSubtitleFetchSucceeded nat
  | LogSubtitleAttemptFailed nat string
  | LogNoUsableSubtitles
  | LogYtdlpFailed string
  | LogStart string
  | LogNoSubtitlesAvailable
  | LogUsingMetadataFallback string nat
  | LogMetadataFetchFailed string
  | LogFinalAttempt
  | LogRetrievedMetadata
  | LogFinalMetadataFailed string
  | LogProcessingYoutube string string
  | LogGeneratingSummary bool
  | LogUnknownSummaryType string
  | LogChunker nat nat
  | LogChunkCompleted nat nat nat
  | LogEmptyResponse nat
  | LogChunkError nat string
  | LogNoAiSummary
  | LogSummaryGenerated
  | LogFinalSummaryMerged
  | LogMergeError string

datatype event =
    Log log_msg
  | CallListTranscripts string
  | CallFetch transcript
  | CallExtractInfo string "string list"
  | CallHttpGet string
  | CallClock
  | CallGenerateContent prompt nat

record run_state =
  trace :: "event list"
  extract_calls :: nat
  http_calls :: nat
  clock_reads :: nat
  generate_calls :: nat

definition init_state :: run_state where
  "init_state =
     \<lparr>trace = [], extract_calls = 0, http_calls = 0, clock_reads = 0, generate_calls = 0\<rparr>"

definition emit :: "event \<Rightarrow> run_state \<Rightarrow> run_state" where
  "emit e s = s\<lparr>trace := trace s @ [e]\<rparr>"

definition log_line :: "log_msg \<Rightarrow> run_state \<Rightarrow> run_state" where
  "log_line m s = emit (Log m) s"

definition call_extract_info ::
  "world \<Rightarrow> string \<Rightarrow> string list \<Rightarrow> run_state \<Rightarrow> extract_outcome \<times> run_state" where
  "call_extract_info w video_url player_client s =
     (extract_info w (extract_calls s) video_url player_client,
      emit (CallExtractInfo video_url player_client) (s\<lparr>extract_calls := Suc (extract_calls s)\<rparr>))"

definition call_http_get :: "world \<Rightarrow> string \<Rightarrow> run_state \<Rightarrow> http_outcome \<times> run_state" where
  "call_http_get w u s =
     (http_get w (http_calls s) u,
      emit (CallHttpGet u) (s\<lparr>http_calls := Suc (http_calls s)\<rparr>))"

definition call_clock :: "world \<Rightarrow> run_state \<Rightarrow> rat \<times> run_state" where
  "call_clock w s =
     (clock w (clock_reads s), emit CallClock (s\<lparr>clock_reads := Suc (clock_reads s)\<rparr>))"

definition call_generate_content ::
  "world \<Rightarrow> prompt \<Rightarrow> nat \<Rightarrow> run_state \<Rightarrow> (string + string) \<times> run_state" where
  "call_generate_content w p max_tokens s =
     (generate_content w (generate_calls s) p max_tokens,
      emit (CallGenerateContent p max_tokens) (s\<lparr>generate_calls := Suc (generate_calls s)\<rparr>))"

section \<open>try\_transcript\_api\<close>

definition segments_text :: "segment list \<Rightarrow> string" where
  \<comment> \<open>\<open>" ".join(seg.get("text", "") for seg in fetched if seg.get("text"))\<close>\<close>
  "segments_text fetched =
     join '' '' (map (\<lambda>seg. the (seg_text seg))
       (filter (\<lambda>seg. seg_text seg \<noteq> None \<and> seg_text seg \<noteq> Some []) fetched))"

definition is_no_element_found :: "string \<Rightarrow> bool" where
  \<comment> \<open>\<open>"no element found" in str(e).lower()\<close>\<close>
  "is_no_element_found e = contains ''no element found'' (lower e)"

fun fetch_attempts ::
  "nat \<Rightarrow> nat \<Rightarrow> transcript list \<Rightarrow> run_state \<Rightarrow> string option \<times> run_state" where
  "fetch_attempts idx n [] s = (None, s)"
| "fetch_attempts idx n (t # ts) s =
     (let s1 = log_line (LogFetchingTranscript (idx + 1) n (language t) (language_code t)) s;
          s2 = emit (CallFetch t) s1
      in case fetch t of
           Inr fetched \<Rightarrow>
             if fetched \<noteq> [] \<and> strip (segments_text fetched) \<noteq> []
             then (Some (segments_text fetched), log_line (LogTranscriptFetched (language t)) s2)
             else fetch_attempts (idx + 1) n ts s2
         | Inl e \<Rightarrow>
             if is_no_element_found e then (None, log_line LogTranscriptXmlEmpty s2)
             else fetch_attempts (idx + 1) n ts
                    (log_line (LogTranscriptAttemptFailed (idx + 1) (take 80 e)) s2))"

definition try_transcript_api ::
  "world \<Rightarrow> string \<Rightarrow> run_state \<Rightarrow> string option \<times> run_state" where
  "try_transcript_api w video_id s =
     (let s1 = log_line LogAttemptingTranscriptApi s;
          s2 = emit (CallListTranscripts video_id) s1
      in case list_transcripts w video_id of
           Inl e \<Rightarrow> (None, log_line (LogTranscriptApiFailed (take 100 e)) s2)
         | Inr transcripts \<Rightarrow>
             fetch_attempts 0 (length (all_attempts transcripts)) (all_attempts transcripts) s2)"

section \<open>\_extract\_with\_stable\_client\<close>

definition strategies :: "string list list" where
  "strategies = [[''android''], [''ios''], [''web'']]"

definition is_permanent :: "string \<Rightarrow> bool" where
  \<comment> \<open>\<open>"private video" in error_str or "video unavailable" in error_str\<close>\<close>
  "is_permanent e =
     (let error_str = lower e
      in contains ''private video'' error_str \<or> contains ''video unavailable'' error_str)"

fun try_strategies ::
  "world \<Rightarrow> string \<Rightarrow> nat \<Rightarrow> string list list \<Rightarrow> string option \<Rightarrow> run_state
     \<Rightarrow> (string + info) \<times> run_state" where
  "try_strategies w video_url idx [] last_error s =
     (case last_error of
        Some e \<Rightarrow> (Inl e, s)
      | None \<Rightarrow> (Inl ''All extraction strategies failed'', s))"
| "try_strategies w video_url idx (strategy # rest) last_error s =
     (let s1 = log_line (LogTryingStrategy (idx + 1) (length strategies) strategy) s;
          (r, s2) = call_extract_info w video_url strategy s1
      in case r of
           ExtractInfo i \<Rightarrow> (Inr i, log_line (LogExtractionSuccessful strategy) s2)
         | ExtractNone \<Rightarrow> try_strategies w video_url (idx + 1) rest last_error s2
         | ExtractRaises e \<Rightarrow>
             (let s3 = log_line (LogStrategyFailed strategy (take 100 e)) s2
              in if is_permanent e then (Inl e, s3)
                 else try_strategies w video_url (idx + 1) rest (Some e) s3))"

definition extract_with_stable_client ::
  "world \<Rightarrow> string \<Rightarrow> run_state \<Rightarrow> (string + info) \<times> run_state" where
  "extract_with_stable_client w video_url s = try_strategies w video_url 0 strategies None s"

section \<open>\_subtitle\_to\_plain\<close>

definition is_digit :: "char \<Rightarrow> bool" where
  "is_digit c = (let n = (of_char c :: nat) in 48 \<le> n \<and> n \<le> 57)"

definition is_cue_line :: "string \<Rightarrow> bool" where
  \<comment> \<open>\<open>re.match(r"^(\d+|WEBVTT|-->)", ln)\<close>\<close>
  "is_cue_line line =
     ((case line of [] \<Rightarrow> False | c # _ \<Rightarrow> is_digit c)
      \<or> startswith line ''WEBVTT'' \<or> startswith line ''-->'')"

definition subtitle_to_plain :: "world \<Rightarrow> string \<Rightarrow> string" where
  "subtitle_to_plain w s0 =
     (let s = strip s0
      in if s = [] then []
         else let segs = json_segs w s
              in if segs \<noteq> [] then join '' '' segs
                 else join '' ''
                        (map strip (filter (\<lambda>ln. ln \<noteq> [] \<and> \<not> is_cue_line ln) (splitlines s))))"

section \<open>try\_ytdlp\_subtitles\<close>

definition REQUEST_TIMEOUT :: int where
  "REQUEST_TIMEOUT = 20"

definition HLS_SEGMENT_LIMIT :: nat where
  "HLS_SEGMENT_LIMIT = 30"

definition is_az :: "char \<Rightarrow> bool" where
  "is_az c = (let n = (of_char c :: nat) in 97 \<le> n \<and> n \<le> 122)"

definition at_end :: "string \<Rightarrow> bool" where
  \<comment> \<open>the regular expression \<open>$\<close>: at the end, or before a final newline\<close>
  "at_end r = (r = [] \<or> r = [CHR 0x0A])"

definition re_en_label :: "string \<Rightarrow> bool" where
  \<comment> \<open>\<open>re.match(r"^en([\-_][a-z]+)?$", lbl) is not None\<close>\<close>
  "re_en_label lbl =
     (case lbl of
        e # n # rest \<Rightarrow>
          e = CHR ''e'' \<and> n = CHR ''n'' \<and>
          (at_end rest \<or>
           (case rest of
              [] \<Rightarrow> False
            | sep # letters \<Rightarrow>
                (sep = CHR ''-'' \<or> sep = CHR ''_'') \<and> takeWhile is_az letters \<noteq> [] \<and>
                at_end (dropWhile is_az letters)))
      | _ \<Rightarrow> False)"

definition is_english_label :: "string \<Rightarrow> bool" where
  "is_english_label label =
     (if label = [] then False
      else let lbl = lower label
           in contains ''english'' lbl \<or> re_en_label lbl \<or> startswith lbl ''en'' \<or> lbl = ''eng'')"

fun dict_set :: "'k \<Rightarrow> 'v \<Rightarrow> ('k \<times> 'v) list \<Rightarrow> ('k \<times> 'v) list" where
  \<comment> \<open>\<open>d[k] = v\<close> on an insertion-ordered dict: an existing key keeps its place\<close>
  "dict_set k v [] = [(k, v)]"
| "dict_set k v ((k', v') # d) = (if k' = k then (k, v) # d else (k', v') # dict_set k v d)"

definition dict_update :: "('k \<times> 'v) list \<Rightarrow> ('k \<times> 'v) list \<Rightarrow> ('k \<times> 'v) list" where
  "dict_update d items = fold (\<lambda>(k, v) acc. dict_set k v acc) items d"

definition merge_tracks :: "info \<Rightarrow> (string \<times> track_value) list" where
  \<comment> \<open>\<open>all_tracks = {**subs, **auto}\<close>\<close>
  "merge_tracks i = dict_update (dict_update [] (subtitles i)) (automatic_captions i)"

fun split_tracks ::
  "(string \<times> track_value) list \<Rightarrow> track list \<Rightarrow> track list \<Rightarrow> track list \<times> track list" where
  "split_tracks [] english_candidates other_candidates = (english_candidates, other_candidates)"
| "split_tracks ((lang, NotAList) # rest) english_candidates other_candidates =
     split_tracks rest english_candidates other_candidates"
| "split_tracks ((lang, TrackList items) # rest) english_candidates other_candidates =
     (if is_english_label lang
      then split_tracks rest (english_candidates @ items) other_candidates
      else split_tracks rest english_candidates (other_candidates @ items))"

fun any_language :: "track_value list \<Rightarrow> track list \<Rightarrow> track list" where
  \<comment> \<open>\<open>for v in ...: if isinstance(v, list): candidates.extend(v[:1])\<close>\<close>
  "any_language [] candidates = candidates"
| "any_language (NotAList # vs) candidates = any_language vs candidates"
| "any_language (TrackList v # vs) candidates = any_language vs (candidates @ take 1 v)"

definition build_candidates :: "(string \<times> track_value) list \<Rightarrow> track list" where
  "build_candidates all_tracks =
     (let (english_candidates, other_candidates) = split_tracks all_tracks [] []
      in if english_candidates \<noteq> [] then take 3 english_candidates
         else if other_candidates \<noteq> [] then take 2 other_candidates
         else any_language (take 2 (map snd all_tracks)) [])"

definition playlist_segments :: "world \<Rightarrow> string \<Rightarrow> string \<Rightarrow> string list" where
  \<comment> \<open>\<open>segs\<close>: the lines that are not empty and do not start with \<open>#\<close>, joined to the URL\<close>
  "playlist_segments w u text =
     map (\<lambda>ln. urljoin w u (strip ln))
       (filter (\<lambda>ln. ln \<noteq> [] \<and> \<not> startswith ln ''#'') (splitlines text))"

definition max_segs :: nat where
  "max_segs = min HLS_SEGMENT_LIMIT 20"

fun fetch_segments ::
  "world \<Rightarrow> string list \<Rightarrow> string list \<Rightarrow> run_state \<Rightarrow> string list \<times> run_state" where
  "fetch_segments w [] collected s = (collected, s)"
| "fetch_segments w (seg # segs) collected s =
     (let (rs, s1) = call_http_get w seg s
      in case rs of
           HttpRaises e \<Rightarrow> fetch_segments w segs collected (log_line (LogSegmentFetchFailed e) s1)
         | HttpResponse status_code content \<Rightarrow>
             if status_code = 200 \<and> strip (subtitle_to_plain w content) \<noteq> []
             then fetch_segments w segs (collected @ [subtitle_to_plain w content]) s1
             else fetch_segments w segs collected s1)"

definition resolve_playlist ::
  "world \<Rightarrow> string \<Rightarrow> string \<Rightarrow> run_state \<Rightarrow> string list \<times> run_state" where
  \<comment> \<open>the branch taken when the content starts with the playlist marker\<close>
  "resolve_playlist w u text s =
     fetch_segments w (take max_segs (playlist_segments w u text)) [] (log_line LogDetectedHls s)"

definition deadline_passed :: "rat \<Rightarrow> rat \<Rightarrow> bool" where
  \<comment> \<open>\<open>time.time() - start > REQUEST_TIMEOUT * 0.8\<close> on doubles. The product is the double
      16.0. The difference is rounded to the nearest double, ties to even, so the rounded
      difference is above 16.0 exactly when the exact difference is above the midpoint
      between 16.0 and the next double, \<open>16 + 1 / 2 ^ 49\<close>.\<close>
  "deadline_passed now start = (now - start > of_int REQUEST_TIMEOUT * (8 / 10) + 1 / 2 ^ 49)"

fun candidate_loop ::
  "world \<Rightarrow> rat \<Rightarrow> nat \<Rightarrow> track list \<Rightarrow> run_state \<Rightarrow> string option \<times> run_state" where
  "candidate_loop w start idx [] s = (None, s)"
| "candidate_loop w start idx (cand # rest) s =
     (let (now, s1) = call_clock w s
      in if deadline_passed now start
         then (None, log_line LogTimeoutApproaching s1)
         else if url cand = None \<or> url cand = Some [] then candidate_loop w start (idx + 1) rest s1
         else
           (let u = the (url cand); (r, s2) = call_http_get w u s1
            in case r of
                 HttpRaises e \<Rightarrow>
                   candidate_loop w start (idx + 1) rest
                     (log_line (LogSubtitleAttemptFailed (idx + 1) (take 80 e)) s2)
               | HttpResponse status_code text \<Rightarrow>
                   if status_code = 200 \<and> strip text \<noteq> [] then
                     if startswith (lstrip text) ''#EXTM3U'' then
                       (let (collected, s3) = resolve_playlist w u text s2
                        in if collected \<noteq> []
                           then (Some (join '' '' collected),
                                 log_line (LogFetchedHlsSegments (length collected)) s3)
                           else candidate_loop w start (idx + 1) rest s3)
                     else if strip (subtitle_to_plain w text) \<noteq> []
                     then (Some (subtitle_to_plain w text),
                           log_line (LogSubtitleFetchSucceeded (idx + 1)) s2)
                     else candidate_loop w start (idx + 1) rest s2
                   else candidate_loop w start (idx + 1) rest s2))"

definition try_ytdlp_subtitles ::
  "world \<Rightarrow> string \<Rightarrow> run_state \<Rightarrow> string option \<times> run_state" where
  "try_ytdlp_subtitles w video_url s =
     (let s1 = log_line LogAttemptingYtdlp s;
          (start, s2) = call_clock w s1;
          (r, s3) = extract_with_stable_client w video_url s2
      in case r of
           Inl e \<Rightarrow> (None, log_line (LogYtdlpFailed (take 100 e)) s3)
         | Inr i \<Rightarrow>
             (case candidate_loop w start 0 (build_candidates (merge_tracks i)) s3 of
                (Some text, s4) \<Rightarrow> (Some text, s4)
              | (None, s4) \<Rightarrow> (None, log_line LogNoUsableSubtitles s4)))"

section \<open>extract\_video\_id\<close>

definition is_id_char :: "char \<Rightarrow> bool" where
  \<comment> \<open>\<open>[0-9A-Za-z_-]\<close>\<close>
  "is_id_char c =
     (let n = (of_char c :: nat)
      in (48 \<le> n \<and> n \<le> 57) \<or> (65 \<le> n \<and> n \<le> 90) \<or> (97 \<le> n \<and> n \<le> 122)
         \<or> c = CHR ''_'' \<or> c = CHR ''-'')"

definition id_here :: "string \<Rightarrow> string option" where
  \<comment> \<open>\<open>([0-9A-Za-z_-]{11})\<close> matched at the head of the string\<close>
  "id_here s =
     (if 11 \<le> length s \<and> list_all is_id_char (take 11 s) then Some (take 11 s) else None)"

definition pat1_here :: "string \<Rightarrow> string option" where
  \<comment> \<open>\<open>(?:v=|\/)([0-9A-Za-z_-]{11})(?:[&\?#]|$)\<close> matched at the head of the string\<close>
  "pat1_here s =
     (let rest = (if startswith s ''v='' then Some (drop 2 s)
                  else if startswith s ''/'' then Some (drop 1 s) else None)
      in case rest of
           None \<Rightarrow> None
         | Some r \<Rightarrow>
             (case id_here r of
                None \<Rightarrow> None
              | Some g \<Rightarrow>
                  (let after = drop 11 r
                   in if at_end after
                         \<or> (case after of [] \<Rightarrow> False
                             | c # _ \<Rightarrow> c = CHR ''&'' \<or> c = CHR ''?'' \<or> c = CHR ''#'')
                      then Some g else None)))"

definition pat2_here :: "string \<Rightarrow> string option" where
  \<comment> \<open>\<open>youtu\.be\/([0-9A-Za-z_-]{11})\<close> matched at the head of the string\<close>
  "pat2_here s = (if startswith s ''youtu.be/'' then id_here (drop 9 s) else None)"

fun re_search :: "(string \<Rightarrow> string option) \<Rightarrow> string \<Rightarrow> string option" where
  \<comment> \<open>\<open>re.search\<close>: the match at the leftmost position that has one\<close>
  "re_search here [] = here []"
| "re_search here (c # cs) =
     (case here (c # cs) of Some g \<Rightarrow> Some g | None \<Rightarrow> re_search here cs)"

definition extract_video_id :: "string \<Rightarrow> py_exception + string" where
  "extract_video_id u =
     (case re_search pat1_here u of
        Some g \<Rightarrow> Inr g
      | None \<Rightarrow>
          (case re_search pat2_here u of
             Some g \<Rightarrow> Inr g
           | None \<Rightarrow>
               (case re_search id_here u of
                  Some g \<Rightarrow> Inr g
                | None \<Rightarrow> Inl (HTTPException 400 ''Invalid YouTube URL.''))))"

section \<open>extract\_transcript\_from\_youtube\<close>

definition get_or :: "'a field \<Rightarrow> 'a \<Rightarrow> 'a option" where
  \<comment> \<open>\<open>info.get(key, default)\<close>; the result \<open>None\<close> is Python's \<open>None\<close>\<close>
  "get_or f d = (case f of Missing \<Rightarrow> Some d | PyNone \<Rightarrow> None | Val v \<Rightarrow> Some v)"

definition truthy_str :: "string option \<Rightarrow> bool" where
  "truthy_str x = (x \<noteq> None \<and> x \<noteq> Some [])"

definition truthy_int :: "int option \<Rightarrow> bool" where
  "truthy_int x = (x \<noteq> None \<and> x \<noteq> Some 0)"

definition fmt_str :: "string option \<Rightarrow> string" where
  \<comment> \<open>a value inside an f-string\<close>
  "fmt_str x = (case x of None \<Rightarrow> ''None'' | Some v \<Rightarrow> v)"

fun str_nat :: "nat \<Rightarrow> string" where
  "str_nat n =
     (if n < 10 then [char_of (48 + n)] else str_nat (n div 10) @ [char_of (48 + n mod 10)])"

definition str_int :: "int \<Rightarrow> string" where
  "str_int i = (if i < 0 then CHR ''-'' # str_nat (nat (- i)) else str_nat (nat i))"

definition fmt_02d :: "int \<Rightarrow> string" where
  \<comment> \<open>\<open>f"{secs:02d}"\<close> for \<open>secs \<ge> 0\<close>\<close>
  "fmt_02d i = (let d = str_int i in replicate (2 - length d) (CHR ''0'') @ d)"

definition metadata_text :: "string \<Rightarrow> string \<Rightarrow> string" where
  \<comment> \<open>\<open>f"Title: {title}\n\nDescription:\n{desc}"\<close>\<close>
  "metadata_text t d = ''Title: '' @ t @ ''\<newline>\<newline>Description:\<newline>'' @ d"

definition metadata_fallback ::
  "world \<Rightarrow> string \<Rightarrow> string option \<Rightarrow> run_state \<Rightarrow> string option \<times> run_state" where
  \<comment> \<open>the body of the second \<open>if not transcript:\<close>\<close>
  "metadata_fallback w video_url transcript s =
     (let s1 = log_line LogNoSubtitlesAvailable s;
          (r, s2) = extract_with_stable_client w video_url s1
      in case r of
           Inl e \<Rightarrow> (Some [], log_line (LogMetadataFetchFailed e) s2)
         | Inr i \<Rightarrow>
             (let t = get_or (title i) []; d = get_or (description i) []
              in if truthy_str t \<or> truthy_str d then
                   (case t of
                      None \<Rightarrow>
                        (Some [], log_line (LogMetadataFetchFailed
                           (CHR 0x27 # ''NoneType'' @ CHR 0x27 # '' object is not subscriptable'')) s2)
                    | Some tv \<Rightarrow>
                        (case d of
                           None \<Rightarrow>
                             (Some [], log_line (LogMetadataFetchFailed
                                (''object of type '' @ CHR 0x27 # ''NoneType'' @ CHR 0x27 # '' has no len()'')) s2)
                         | Some dv \<Rightarrow>
                             (Some (metadata_text tv dv),
                              log_line (LogUsingMetadataFallback (take 50 tv) (length dv)) s2)))
                 else (transcript, s2)))"

definition disclaimer :: string where
  "disclaimer = ''Note: Transcript/subtitles were not available for this video. This summary is based on the video metadata only.''"

definition truthy_num :: "number option \<Rightarrow> bool" where
  "truthy_num x = (x \<noteq> None \<and> x \<noteq> Some (IntNum 0) \<and> x \<noteq> Some (FloatNum 0))"

definition duration_str :: "number option \<Rightarrow> string + string" where
  \<comment> \<open>\<open>duration_str\<close>; \<open>Inl\<close> is the ValueError that \<open>f"{secs:02d}"\<close> raises on a float\<close>
  "duration_str d =
     (if truthy_num d then
        (case the d of
           IntNum n \<Rightarrow> Inr (str_int (n div 60) @ '':'' @ fmt_02d (n mod 60))
         | FloatNum f \<Rightarrow>
             Inl (''Unknown format code '' @ CHR 0x27 # ''d'' @ CHR 0x27 #
                  '' for object of type '' @ CHR 0x27 # ''float'' @ [CHR 0x27]))
      else Inr ''Unknown'')"

definition view_str :: "world \<Rightarrow> int option \<Rightarrow> string" where
  "view_str w v =
     (if truthy_int v then
        if the v \<ge> 1000000 then fmt_1f w (the v) 1000000 @ ''M views''
        else if the v \<ge> 1000 then fmt_1f w (the v) 1000 @ ''K views''
        else str_int (the v) @ '' views''
      else ''Unknown views'')"

definition upload_date_str :: "string option \<Rightarrow> string" where
  "upload_date_str u =
     (if truthy_str u \<and> u \<noteq> Some ''Unknown''
      then take 4 (the u) @ ''-'' @ take 2 (drop 4 (the u)) @ ''-'' @ take 2 (drop 6 (the u))
      else fmt_str u)"

definition fallback_text :: "world \<Rightarrow> info \<Rightarrow> string \<Rightarrow> string" where
  \<comment> \<open>\<open>fallback_text\<close>, for the duration string \<open>dstr\<close>\<close>
  "fallback_text w i dstr =
     ''Video Title: '' @ fmt_str (get_or (title i) ''No title available'')
     @ ''\<newline>\<newline>Uploader: '' @ fmt_str (get_or (uploader i) ''Unknown'')
     @ ''\<newline>Duration: '' @ dstr
     @ ''\<newline>Views: '' @ view_str w (get_or (view_count i) 0)
     @ ''\<newline>Upload Date: '' @ upload_date_str (get_or (upload_date i) ''Unknown'')
     @ ''\<newline>\<newline>Description:\<newline>'' @ fmt_str (get_or (description i) ''No description available'')
     @ ''\<newline>\<newline>'' @ disclaimer"

definition exhausted :: py_exception where
  "exhausted = HTTPException 400
     ''Unable to extract transcript or metadata from this video. This may be because: 1) The video has no subtitles/captions, 2) The video is private or age-restricted, 3) YouTube is blocking automated access. Please try a different video.''"

definition final_metadata ::
  "world \<Rightarrow> string \<Rightarrow> run_state \<Rightarrow> (py_exception + string) \<times> run_state" where
  \<comment> \<open>the last attempt, and the \<open>raise\<close> after it\<close>
  "final_metadata w video_url s =
     (let s1 = log_line LogFinalAttempt s;
          (r, s2) = extract_with_stable_client w video_url s1
      in case r of
           Inl e \<Rightarrow> (Inl exhausted, log_line (LogFinalMetadataFailed e) s2)
         | Inr i \<Rightarrow>
             (case duration_str (get_or (duration i) (IntNum 0)) of
                Inl e \<Rightarrow> (Inl exhausted, log_line (LogFinalMetadataFailed e) s2)
              | Inr dstr \<Rightarrow>
                  if strip (fallback_text w i dstr) \<noteq> []
                  then (Inr (fallback_text w i dstr), log_line LogRetrievedMetadata s2)
                  else (Inl exhausted, s2)))"

definition falsy :: "string option \<Rightarrow> bool" where
  \<comment> \<open>\<open>not transcript\<close>\<close>
  "falsy x = (x = None \<or> x = Some [])"

definition extract_transcript_from_youtube ::
  "world \<Rightarrow> string \<Rightarrow> run_state \<Rightarrow> (py_exception + string) \<times> run_state" where
  "extract_transcript_from_youtube w video_url s =
     (let s0 = log_line (LogStart video_url) s
      in case extract_video_id video_url of
           Inl err \<Rightarrow> (Inl err, s0)
         | Inr vid \<Rightarrow>
             (let (t1, s1) = try_transcript_api w vid s0;
                  (t2, s2) = (if falsy t1 then try_ytdlp_subtitles w video_url s1 else (t1, s1));
                  (t3, s3) = (if falsy t2 then metadata_fallback w video_url t2 s2 else (t2, s2))
              in if \<not> falsy t3 \<and> strip (the t3) \<noteq> [] then (Inr (the t3), s3)
                 else final_metadata w video_url s3))"

section \<open>summarize\_via\_gemini\<close>

definition MAX_SAFE_CHUNK :: nat where
  "MAX_SAFE_CHUNK = 80000"

definition overlap :: nat where
  "overlap = 300"

definition max_chunks :: nat where
  "max_chunks = 2"

function chunk_loop :: "nat \<Rightarrow> string \<Rightarrow> (nat \<times> string) list \<Rightarrow> (nat \<times> string) list" where
  \<comment> \<open>\<open>for i in range(0, text_len, step)\<close>; every chunk is kept with its start offset \<open>i\<close>\<close>
  "chunk_loop i text chunks =
     (if i < length text then
        (let chunks' = chunks @ [(i, take MAX_SAFE_CHUNK (drop i text))]
         in if length chunks' \<ge> max_chunks then chunks'
            else chunk_loop (i + (MAX_SAFE_CHUNK - overlap)) text chunks')
      else chunks)"
  by pat_completeness auto
termination
  by (relation "measure (\<lambda>(i, text, chunks). length text - i)")
     (auto simp: MAX_SAFE_CHUNK_def overlap_def)

definition chunk_spans :: "string \<Rightarrow> (nat \<times> string) list" where
  "chunk_spans text =
     (if length text \<le> MAX_SAFE_CHUNK then [(0, text)] else chunk_loop 0 text [])"

definition chunker :: "string \<Rightarrow> string list" where
  \<comment> \<open>\<open>chunks\<close>\<close>
  "chunker text = map snd (chunk_spans text)"

definition bullet_count_or_10 :: "int option \<Rightarrow> int" where
  \<comment> \<open>\<open>int(bullet_count) if bullet_count else 10\<close>\<close>
  "bullet_count_or_10 bullet_count =
     (case bullet_count of None \<Rightarrow> 10 | Some b \<Rightarrow> if b = 0 then 10 else b)"

definition normalize_summary_type :: "string \<Rightarrow> string" where
  \<comment> \<open>\<open>(summary_type or "short").strip().lower()\<close>\<close>
  "normalize_summary_type summary_type =
     lower (strip (if summary_type = [] then ''short'' else summary_type))"

definition checked_summary_type :: "string \<Rightarrow> run_state \<Rightarrow> string \<times> run_state" where
  \<comment> \<open>\<open>if summary_type not in {"short", "bullet", "detailed"}: ... summary_type = "short"\<close>\<close>
  "checked_summary_type summary_type s =
     (let st = normalize_summary_type summary_type
      in if st \<notin> {''short'', ''bullet'', ''detailed''}
         then (''short'', log_line (LogUnknownSummaryType st) s)
         else (st, s))"

definition chunk_request :: "string \<Rightarrow> int option \<Rightarrow> string \<Rightarrow> prompt \<times> nat" where
  \<comment> \<open>the prompt of a chunk and its \<open>max_tokens\<close>\<close>
  "chunk_request summary_type bullet_count chunk =
     (if summary_type = ''bullet''
      then (ChunkPrompt (BulletPrompt (bullet_count_or_10 bullet_count)) chunk, 2500)
      else if summary_type = ''comprehensive'' then (ChunkPrompt ComprehensivePrompt chunk, 3000)
      else if summary_type = ''detailed'' then (ChunkPrompt DetailedPrompt chunk, 3000)
      else (ChunkPrompt ShortPrompt chunk, 1200))"

fun summarize_chunks ::
  "world \<Rightarrow> string \<Rightarrow> int option \<Rightarrow> nat \<Rightarrow> nat \<Rightarrow> string list \<Rightarrow> string list \<Rightarrow> run_state
     \<Rightarrow> string list \<times> run_state" where
  "summarize_chunks w summary_type bullet_count idx n [] partials s = (partials, s)"
| "summarize_chunks w summary_type bullet_count idx n (chunk # chunks) partials s =
     (let (p, max_tokens) = chunk_request summary_type bullet_count chunk;
          (resp, s1) = call_generate_content w p max_tokens s
      in case resp of
           Inl e \<Rightarrow>
             summarize_chunks w summary_type bullet_count (idx + 1) n chunks partials
               (log_line (LogChunkError idx e) s1)
         | Inr result \<Rightarrow>
             if strip result \<noteq> []
             then summarize_chunks w summary_type bullet_count (idx + 1) n chunks
                    (partials @ [result]) (log_line (LogChunkCompleted idx n (length chunk)) s1)
             else summarize_chunks w summary_type bullet_count (idx + 1) n chunks partials
                    (log_line (LogEmptyResponse idx) s1))"

definition merge_kind :: "string \<Rightarrow> int option \<Rightarrow> prompt_kind" where
  "merge_kind summary_type bullet_count =
     (if summary_type = ''short'' then ShortPrompt
      else if summary_type = ''bullet'' then BulletPrompt (bullet_count_or_10 bullet_count)
      else DetailedPrompt)"

definition merge_partials ::
  "world \<Rightarrow> string \<Rightarrow> int option \<Rightarrow> string list \<Rightarrow> run_state \<Rightarrow> string \<times> run_state" where
  "merge_partials w summary_type bullet_count partials s =
     (let combined = join ''\<newline>\<newline>'' partials;
          (resp, s1) = call_generate_content w
                         (MergePrompt (merge_kind summary_type bullet_count) combined) 3500 s
      in case resp of
           Inl e \<Rightarrow>
             (format_summary_output w (join ''\<newline>\<newline>'' partials) summary_type,
              log_line (LogMergeError e) s1)
         | Inr result \<Rightarrow>
             if strip result \<noteq> []
             then (format_summary_output w (strip result) summary_type,
                   log_line LogFinalSummaryMerged s1)
             else (format_summary_output w (join ''\<newline>\<newline>'' (take 3 partials)) summary_type, s1))"

definition summarize_via_gemini ::
  "world \<Rightarrow> string \<Rightarrow> string \<Rightarrow> int option \<Rightarrow> run_state \<Rightarrow> string \<times> run_state" where
  "summarize_via_gemini w text0 summary_type0 bullet_count s =
     (if text0 = [] then (''No text available to summarize.'', s)
      else if \<not> gemini_key w
      then (take 800 text0 @ (if length text0 > 800 then ''...'' else []), s)
      else
        (let (summary_type, s1) = checked_summary_type summary_type0 s;
             text = strip text0;
             chunks = chunker text;
             s2 = log_line (LogChunker (length chunks) (length text)) s1;
             (partials, s3) =
               summarize_chunks w summary_type bullet_count 1 (length chunks) chunks [] s2
         in if partials = []
            then (format_summary_output w (take 1500 text) ''short'', log_line LogNoAiSummary s3)
            else if length partials = 1
            then (format_summary_output w (hd partials) summary_type,
                  log_line LogSummaryGenerated s3)
            else merge_partials w summary_type bullet_count partials s3))"

section \<open>The endpoint /summarize/youtube\<close>

record response =
  resp_success :: bool
  resp_summary :: string
  resp_video_url :: string
  resp_summary_type :: string
  resp_transcript_length :: nat
  resp_metadata_only :: bool
  resp_warning :: "string option"

definition friendly_error :: "string \<Rightarrow> string" where
  "friendly_error error_message =
     (if contains ''HTTP Error 429'' error_message \<or> contains ''Too Many Requests'' error_message
      then ''YouTube is rate-limiting requests. Please wait a few minutes and try again.''
      else if contains ''sign in'' (lower error_message) \<or> contains ''bot'' (lower error_message)
      then ''YouTube detected automated access. This usually resolves itself after a few minutes. Try again shortly, or use a different video.''
      else if contains ''Private video'' error_message \<or> contains ''unavailable'' (lower error_message)
      then ''This video is private, unavailable, or age-restricted and cannot be accessed.''
      else if contains ''Video unavailable'' error_message
      then ''This video is not available. It may have been deleted or made private.''
      else if contains ''All extraction strategies failed'' error_message
      then ''Unable to access this video. YouTube may be blocking automated requests. Please try again in a few minutes or use a different video.''
      else error_message)"

definition is_metadata_only :: "string \<Rightarrow> bool" where
  "is_metadata_only transcript = contains ''Note: Transcript/subtitles were not available'' transcript"

definition summarize_youtube ::
  "world \<Rightarrow> string \<Rightarrow> string \<Rightarrow> int option \<Rightarrow> run_state \<Rightarrow> (py_exception + response) \<times> run_state"
where
  "summarize_youtube w video_url summary_type bullet_count s =
     (let s1 = log_line (LogProcessingYoutube (take 50 video_url) summary_type) s;
          (r, s2) = extract_transcript_from_youtube w video_url s1
      in case r of
           Inl (HTTPException code detail) \<Rightarrow> (Inl (HTTPException code detail), s2)
         | Inl (PyException e) \<Rightarrow> (Inl (HTTPException 500 (friendly_error e)), s2)
         | Inr transcript \<Rightarrow>
             if strip transcript = []
             then (Inl (HTTPException 400
                     ''No content could be extracted from this video. Please try a different video.''), s2)
             else
               (let s3 = log_line (LogGeneratingSummary (is_metadata_only transcript)) s2;
                    (final, s4) = summarize_via_gemini w transcript summary_type bullet_count s3
                in (Inr \<lparr>resp_success = True, resp_summary = final, resp_video_url = video_url,
                          resp_summary_type = summary_type,
                          resp_transcript_length = length transcript,
                          resp_metadata_only = is_metadata_only transcript,
                          resp_warning =
                            (if is_metadata_only transcript
                             then Some ''This summary is based on video metadata only (no transcript available)''
                             else None)\<rparr>, s4)))"

section \<open>Observations on a trace\<close>

definition http_requests :: "event list \<Rightarrow> string list" where
  \<comment> \<open>the URLs of the \<open>requests.get\<close> calls of a trace, in order\<close>
  "http_requests tr = concat (map (\<lambda>e. case e of CallHttpGet u \<Rightarrow> [u] | _ \<Rightarrow> []) tr)"

definition fetch_calls :: "event list \<Rightarrow> transcript list" where
  \<comment> \<open>the caption tracks whose \<open>fetch()\<close> was called, in order\<close>
  "fetch_calls tr = concat (map (\<lambda>e. case e of CallFetch t \<Rightarrow> [t] | _ \<Rightarrow> []) tr)"

definition extract_requests :: "event list \<Rightarrow> string list list" where
  \<comment> \<open>the client identities of the \<open>extract_info\<close> calls of a trace, in order\<close>
  "extract_requests tr =
     concat (map (\<lambda>e. case e of CallExtractInfo u player_client \<Rightarrow> [player_client] | _ \<Rightarrow> []) tr)"

definition yields_nothing :: "transcript \<Rightarrow> bool" where
  \<comment> \<open>an attempt that neither returns a text nor stops the fetcher\<close>
  "yields_nothing t =
     (case fetch t of
        Inl e \<Rightarrow> \<not> is_no_element_found e
      | Inr fetched \<Rightarrow> fetched = [] \<or> strip (segments_text fetched) = [])"

definition passes_on :: "extract_outcome \<Rightarrow> bool" where
  \<comment> \<open>a profile attempt after which the next profile is tried\<close>
  "passes_on r =
     (case r of ExtractInfo i \<Rightarrow> False | ExtractNone \<Rightarrow> True | ExtractRaises e \<Rightarrow> \<not> is_permanent e)"

section \<open>Concrete inputs\<close>

definition caption_track :: "string \<Rightarrow> string \<Rightarrow> transcript" where
  "caption_track l c = \<lparr>language = l, language_code = c, fetch = Inr []\<rparr>"

definition listing_5_3 :: "transcript list" where
  "listing_5_3 =
     [caption_track ''Hindi'' ''hi'', caption_track ''English'' ''en'',
      caption_track ''English (United States)'' ''en-US'', caption_track ''Spanish'' ''es'',
      caption_track ''English (United Kingdom)'' ''en-GB'',
      caption_track ''English (auto-generated)'' ''en'',
      caption_track ''Japanese'' ''ja'', caption_track ''English (India)'' ''en-IN'']"

definition sub_track :: "string \<Rightarrow> track" where
  "sub_track u = \<lparr>url = Some u\<rparr>"

definition pool_en_fr :: "(string \<times> track_value) list" where
  "pool_en_fr =
     [(''en'', TrackList [sub_track ''https://example.com/en.vtt'']),
      (''fr'', TrackList [sub_track ''https://example.com/fr.vtt''])]"


definition quiet_world :: world where
  "quiet_world =
     \<lparr>list_transcripts = (\<lambda>video_id. Inl ''Subtitles are disabled for this video''),
      extract_info = (\<lambda>n video_url player_client. ExtractNone),
      http_get = (\<lambda>n u. HttpRaises ''timed out''),
      clock = (\<lambda>n. 0),
      urljoin = (\<lambda>base u. u),
      json_segs = (\<lambda>s. []),
      fmt_1f = (\<lambda>n d. ''0.0''),
      gemini_key = True,
      generate_content = (\<lambda>n p max_tokens. Inr ''A summary.''),
      format_summary_output = (\<lambda>t summary_type. t)\<rparr>"

definition track_timeout :: transcript where
  "track_timeout =
     \<lparr>language = ''English'', language_code = ''en'', fetch = Inl ''Connection reset by peer''\<rparr>"

definition track_empty_xml :: transcript where
  "track_empty_xml =
     \<lparr>language = ''English (United States)'', language_code = ''en-US'',
      fetch = Inl ''no element found: line 1, column 0''\<rparr>"

definition track_hindi :: transcript where
  "track_hindi =
     \<lparr>language = ''Hindi'', language_code = ''hi'',
      fetch = Inr [\<lparr>seg_text = Some ''namaste''\<rparr>, \<lparr>seg_text = None\<rparr>, \<lparr>seg_text = Some ''duniya''\<rparr>]\<rparr>"

definition world_empty_xml :: world where
  "world_empty_xml =
     quiet_world\<lparr>list_transcripts := (\<lambda>video_id. Inr [track_timeout, track_empty_xml, track_hindi])\<rparr>"

definition short_url :: string where
  "short_url = ''https://youtu.be/abc12345678''"

definition info_plain :: info where
  "info_plain =
     \<lparr>title = Val ''Demo'', description = Val ''A demo video'', uploader = Missing,
      duration = Val (IntNum 125), view_count = Val 2500000, upload_date = Val ''20230615'',
      subtitles = [], automatic_captions = []\<rparr>"

definition info_en :: info where
  "info_en = info_plain\<lparr>subtitles := [(''en'', TrackList [sub_track ''https://example.com/en.vtt''])]\<rparr>"

definition vtt_body :: string where
  "vtt_body = ''WEBVTT\<newline>\<newline>00:00.000 --> 00:02.000\<newline>hello world\<newline>''"

definition world_captions :: world where
  "world_captions = quiet_world\<lparr>list_transcripts := (\<lambda>video_id. Inr [track_hindi])\<rparr>"

definition world_subtitles :: world where
  "world_subtitles =
     quiet_world\<lparr>extract_info := (\<lambda>n video_url player_client. ExtractInfo info_en),
                 http_get := (\<lambda>n u. HttpResponse 200 vtt_body)\<rparr>"

definition world_metadata :: world where
  "world_metadata = quiet_world\<lparr>extract_info := (\<lambda>n video_url player_client. ExtractInfo info_plain)\<rparr>"

definition private_error :: string where
  "private_error = ''ERROR: [youtube] abc12345678: Private video. Sign in if you have been granted access to this video''"

definition world_private :: world where
  "world_private = quiet_world\<lparr>extract_info := (\<lambda>n video_url player_client. ExtractRaises private_error)\<rparr>"

definition disclaimer_phrase :: string where
  \<comment> \<open>the substring the endpoint looks for\<close>
  "disclaimer_phrase = ''Note: Transcript/subtitles were not available''"

definition warning_text :: string where
  "warning_text = ''This summary is based on video metadata only (no transcript available)''"

definition info_noted :: info where
  "info_noted = info_plain\<lparr>title := Val ''Note: Transcript/subtitles were not available''\<rparr>"

definition world_noted :: world where
  "world_noted = quiet_world\<lparr>extract_info := (\<lambda>n video_url player_client. ExtractInfo info_noted)\<rparr>"

definition youtube_start :: run_state where
  \<comment> \<open>the state in which the endpoint calls the pipeline for \<open>short_url\<close> and mode short\<close>
  "youtube_start = log_line (LogProcessingYoutube (take 50 short_url) ''short'') init_state"

definition world_ios_private :: world where
  "world_ios_private =
     quiet_world\<lparr>extract_info := (\<lambda>n video_url player_client.
        if player_client = [''ios''] then ExtractRaises private_error else ExtractNone)\<rparr>"

definition info_bare :: info where
  "info_bare =
     \<lparr>title = Missing, description = Val [], uploader = Missing,
      duration = Val (IntNum 125), view_count = Missing, upload_date = Missing,
      subtitles = [], automatic_captions = []\<rparr>"

definition info_bare_float :: info where
  "info_bare_float = info_bare\<lparr>duration := Val (FloatNum (251 / 2))\<rparr>"

definition world_bare :: world where
  "world_bare = quiet_world\<lparr>extract_info := (\<lambda>n video_url player_client. ExtractInfo info_bare)\<rparr>"

definition world_bare_float :: world where
  "world_bare_float =
     quiet_world\<lparr>extract_info := (\<lambda>n video_url player_client. ExtractInfo info_bare_float)\<rparr>"

section \<open>The attempt list of the caption fetcher\<close>

lemma split_transcripts_filter:
  "split_transcripts ts em ot =
     (em @ filter is_english_transcript ts, ot @ filter (\<lambda>t. \<not> is_english_transcript t) ts)"
  by (induction ts arbitrary: em ot) auto

lemma take_3_of_5:
  assumes "length xs = 5"
  shows "take 3 xs = [xs ! 0, xs ! 1, xs ! 2]"
proof -
  from assms obtain a b c d e where "xs = [a, b, c, d, e]"
    by (auto simp: length_Suc_conv eval_nat_numeral)
  then show ?thesis by simp
qed

lemma take_1_of_3:
  assumes "length xs = 3"
  shows "take (Suc 0) xs = [xs ! 0]"
proof -
  from assms obtain a b c where "xs = [a, b, c]"
    by (auto simp: length_Suc_conv eval_nat_numeral)
  then show ?thesis by simp
qed

text \<open>
  C8. When the partition of a caption listing yields 5 preferred-language tracks and 3
  other-language tracks, the attempt list is the first 3 preferred-language tracks followed
  by the first other-language track: 4 candidates, in that order.
\<close>

theorem all_attempts_5_3:
  assumes "split_transcripts transcripts [] [] = (english_matches, others)"
    and "length english_matches = 5"
    and "length others = 3"
  shows "all_attempts transcripts =
           [english_matches ! 0, english_matches ! 1, english_matches ! 2, others ! 0]
         \<and> length (all_attempts transcripts) = 4"
  using assms by (simp add: all_attempts_def take_3_of_5 take_1_of_3)

theorem all_attempts_5_3_witness:
  "all_attempts listing_5_3 =
     [caption_track ''English'' ''en'', caption_track ''English (United States)'' ''en-US'',
      caption_track ''English (United Kingdom)'' ''en-GB'', caption_track ''Hindi'' ''hi'']"
proof -
  have h: "split_transcripts listing_5_3 [] [] =
     ([caption_track ''English'' ''en'', caption_track ''English (United States)'' ''en-US'',
       caption_track ''English (United Kingdom)'' ''en-GB'',
       caption_track ''English (auto-generated)'' ''en'',
       caption_track ''English (India)'' ''en-IN''],
      [caption_track ''Hindi'' ''hi'', caption_track ''Spanish'' ''es'',
       caption_track ''Japanese'' ''ja''])"
    by code_simp
  from all_attempts_5_3 [OF h] show ?thesis by simp
qed

section \<open>The chunker\<close>

lemma chunk_spans_two:
  assumes "MAX_SAFE_CHUNK < length text"
  shows "chunk_spans text =
           [(0, take MAX_SAFE_CHUNK text),
            (MAX_SAFE_CHUNK - overlap, take MAX_SAFE_CHUNK (drop (MAX_SAFE_CHUNK - overlap) text))]"
proof -
  have pos: "0 < length text" and snd: "MAX_SAFE_CHUNK - overlap < length text"
    using assms by (auto simp: MAX_SAFE_CHUNK_def overlap_def)
  have "chunk_loop 0 text [] =
          chunk_loop (MAX_SAFE_CHUNK - overlap) text [(0, take MAX_SAFE_CHUNK text)]"
    using pos by (subst chunk_loop.simps) (simp add: max_chunks_def)
  also have "\<dots> = [(0, take MAX_SAFE_CHUNK text),
            (MAX_SAFE_CHUNK - overlap, take MAX_SAFE_CHUNK (drop (MAX_SAFE_CHUNK - overlap) text))]"
    using snd by (subst chunk_loop.simps) (simp add: max_chunks_def)
  finally show ?thesis using assms by (simp add: chunk_spans_def)
qed

text \<open>
  C7. For a text whose length is 2.2 times \<open>MAX_SAFE_CHUNK\<close> (176000 code points; the
  chunker works on the text after \<open>text.strip()\<close>), the chunker produces exactly 2 chunks,
  the cap \<open>max_chunks\<close>; each chunk is at most \<open>MAX_SAFE_CHUNK = 80000\<close> long; the chunks
  start at the offsets 0 and \<open>MAX_SAFE_CHUNK - overlap\<close>, which differ by
  \<open>80000 - 300\<close>.
\<close>

theorem chunker_2_2:
  assumes "10 * length text = 22 * MAX_SAFE_CHUNK"
  shows "length (chunker text) = 2
         \<and> chunker text =
             [take MAX_SAFE_CHUNK text, take MAX_SAFE_CHUNK (drop (MAX_SAFE_CHUNK - overlap) text)]
         \<and> list_all (\<lambda>chunk. length chunk \<le> MAX_SAFE_CHUNK) (chunker text)
         \<and> map fst (chunk_spans text) = [0, MAX_SAFE_CHUNK - overlap]
         \<and> fst (chunk_spans text ! 1) - fst (chunk_spans text ! 0) = MAX_SAFE_CHUNK - overlap
         \<and> max_chunks = 2 \<and> MAX_SAFE_CHUNK = 80000 \<and> overlap = 300"
proof -
  from assms have "MAX_SAFE_CHUNK < length text"
    by (simp add: MAX_SAFE_CHUNK_def)
  from chunk_spans_two [OF this] show ?thesis
    by (simp add: chunker_def max_chunks_def MAX_SAFE_CHUNK_def overlap_def)
qed

theorem chunker_2_2_witness:
  "length (chunker (replicate 176000 (CHR ''a''))) = 2
   \<and> chunker (replicate 176000 (CHR ''a'')) =
       [replicate 80000 (CHR ''a''), replicate 80000 (CHR ''a'')]
   \<and> map fst (chunk_spans (replicate 176000 (CHR ''a''))) = [0, 79700]"
  using chunker_2_2 [of "replicate 176000 (CHR ''a'')"]
  by (simp add: MAX_SAFE_CHUNK_def overlap_def)

section \<open>The candidate list of the direct-subtitles stage\<close>

lemma split_tracks_acc:
  "split_tracks ts e ot = (e @ fst (split_tracks ts [] []), ot @ snd (split_tracks ts [] []))"
proof (induction ts arbitrary: e ot)
  case Nil
  show ?case by simp
next
  case (Cons p ts)
  obtain lang v where p: "p = (lang, v)" by (cases p)
  show ?case
  proof (cases v)
    case NotAList
    with p Cons [of e ot] show ?thesis by simp
  next
    case (TrackList items)
    show ?thesis
    proof (cases "is_english_label lang")
      case True
      have "split_tracks (p # ts) e ot = split_tracks ts (e @ items) ot"
        using p TrackList True by simp
      also have "\<dots> = ((e @ items) @ fst (split_tracks ts [] []), ot @ snd (split_tracks ts [] []))"
        by (rule Cons)
      finally have a: "split_tracks (p # ts) e ot =
          (e @ items @ fst (split_tracks ts [] []), ot @ snd (split_tracks ts [] []))"
        by simp
      have "split_tracks (p # ts) [] [] = split_tracks ts items []"
        using p TrackList True by simp
      also have "\<dots> = (items @ fst (split_tracks ts [] []), [] @ snd (split_tracks ts [] []))"
        by (rule Cons)
      finally have b: "split_tracks (p # ts) [] [] =
          (items @ fst (split_tracks ts [] []), snd (split_tracks ts [] []))"
        by simp
      show ?thesis unfolding a b by simp
    next
      case False
      have "split_tracks (p # ts) e ot = split_tracks ts e (ot @ items)"
        using p TrackList False by simp
      also have "\<dots> = (e @ fst (split_tracks ts [] []), (ot @ items) @ snd (split_tracks ts [] []))"
        by (rule Cons)
      finally have a: "split_tracks (p # ts) e ot =
          (e @ fst (split_tracks ts [] []), ot @ items @ snd (split_tracks ts [] []))"
        by simp
      have "split_tracks (p # ts) [] [] = split_tracks ts [] items"
        using p TrackList False by simp
      also have "\<dots> = ([] @ fst (split_tracks ts [] []), items @ snd (split_tracks ts [] []))"
        by (rule Cons)
      finally have b: "split_tracks (p # ts) [] [] =
          (fst (split_tracks ts [] []), items @ snd (split_tracks ts [] []))"
        by simp
      show ?thesis unfolding a b by simp
    qed
  qed
qed


lemma split_tracks_Cons_list:
  "split_tracks ((lang, TrackList items) # ts) [] [] =
     (if is_english_label lang
      then (items @ fst (split_tracks ts [] []), snd (split_tracks ts [] []))
      else (fst (split_tracks ts [] []), items @ snd (split_tracks ts [] [])))"
proof (cases "is_english_label lang")
  case True
  then have "split_tracks ((lang, TrackList items) # ts) [] [] = split_tracks ts items []"
    by simp
  also have "\<dots> = (items @ fst (split_tracks ts [] []), [] @ snd (split_tracks ts [] []))"
    by (rule split_tracks_acc)
  finally show ?thesis using True by simp
next
  case False
  then have "split_tracks ((lang, TrackList items) # ts) [] [] = split_tracks ts [] items"
    by simp
  also have "\<dots> = ([] @ fst (split_tracks ts [] []), items @ snd (split_tracks ts [] []))"
    by (rule split_tracks_acc)
  finally show ?thesis using False by simp
qed

lemma split_tracks_empty:
  "split_tracks ts [] [] = ([], []) \<Longrightarrow> \<forall>v \<in> set (map snd ts). v = NotAList \<or> v = TrackList []"
proof (induction ts)
  case Nil
  show ?case by simp
next
  case (Cons p ts)
  obtain lang v where p: "p = (lang, v)" by (cases p)
  show ?case
  proof (cases v)
    case NotAList
    with Cons p show ?thesis by simp
  next
    case (TrackList items)
    have "split_tracks ((lang, TrackList items) # ts) [] [] = ([], [])"
      using Cons.prems p TrackList by simp
    then have "items = [] \<and> fst (split_tracks ts [] []) = [] \<and> snd (split_tracks ts [] []) = []"
      unfolding split_tracks_Cons_list by (simp split: if_splits)
    then have "items = []" and "split_tracks ts [] [] = ([], [])"
      by (simp_all add: prod_eq_iff)
    with Cons.IH p TrackList show ?thesis by simp
  qed
qed

lemma any_language_empty:
  "\<forall>v \<in> set vs. v = NotAList \<or> v = TrackList [] \<Longrightarrow> any_language vs c = c"
proof (induction vs arbitrary: c)
  case Nil
  show ?case by simp
next
  case (Cons v vs)
  then have "v = NotAList \<or> v = TrackList []" by simp
  with Cons show ?case by auto
qed

lemma build_candidates_none:
  assumes "split_tracks all_tracks [] [] = ([], [])"
  shows "build_candidates all_tracks = []"
proof -
  have "\<forall>v \<in> set (take 2 (map snd all_tracks)). v = NotAList \<or> v = TrackList []"
    using split_tracks_empty [OF assms] by (meson in_set_takeD)
  then have "any_language (take 2 (map snd all_tracks)) [] = []"
    by (rule any_language_empty)
  then show ?thesis using assms by (simp add: build_candidates_def)
qed

text \<open>
  C3 (as amended). In the direct-subtitles stage the two groups are used by priority, not
  together: when the preferred-language group is non-empty the candidate list is its first 3
  candidates and no other-language candidate is added; otherwise it is the first 2
  other-language candidates; when both groups are empty no candidate is left (the loop over
  any available language then adds nothing). The list never has more than 3 candidates.
\<close>

theorem build_candidates_priority:
  assumes "split_tracks all_tracks [] [] = (english_candidates, other_candidates)"
  shows "build_candidates all_tracks =
           (if english_candidates \<noteq> [] then take 3 english_candidates
            else take 2 other_candidates)
         \<and> length (build_candidates all_tracks) \<le> 3"
proof (cases "english_candidates = [] \<and> other_candidates = []")
  case True
  with assms build_candidates_none [of all_tracks] show ?thesis by simp
next
  case False
  with assms show ?thesis by (auto simp: build_candidates_def)
qed

lemma pool_en_fr_split:
  "split_tracks pool_en_fr [] [] =
     ([sub_track ''https://example.com/en.vtt''], [sub_track ''https://example.com/fr.vtt''])"
  by code_simp

theorem build_candidates_priority_witness:
  "build_candidates pool_en_fr = [sub_track ''https://example.com/en.vtt'']"
  using build_candidates_priority [OF pool_en_fr_split] by simp

text \<open>
  The claim as stated fails: with one preferred-language track and one other-language track
  the candidate list holds the preferred-language track only.
\<close>

theorem build_candidates_both_counterexample:
  "split_tracks pool_en_fr [] [] =
     ([sub_track ''https://example.com/en.vtt''], [sub_track ''https://example.com/fr.vtt''])
   \<and> build_candidates pool_en_fr \<noteq>
       take 3 [sub_track ''https://example.com/en.vtt'']
       @ take 2 [sub_track ''https://example.com/fr.vtt'']
   \<and> sub_track ''https://example.com/fr.vtt'' \<notin> set (build_candidates pool_en_fr)"
proof -
  have "build_candidates pool_en_fr = [sub_track ''https://example.com/en.vtt'']"
    by (simp add: build_candidates_def pool_en_fr_split)
  then show ?thesis by (simp add: pool_en_fr_split sub_track_def)
qed

section \<open>The summary mode\<close>

lemma normalize_comprehensive: "normalize_summary_type ''comprehensive'' = ''comprehensive''"
  by code_simp

lemma checked_comprehensive:
  "checked_summary_type ''comprehensive'' s =
     (''short'', log_line (LogUnknownSummaryType ''comprehensive'') s)"
  by (simp add: checked_summary_type_def normalize_comprehensive)

lemma strip_abc: "strip ''abc'' = ''abc''" by code_simp
lemma strip_summary: "strip ''A summary.'' \<noteq> []" by code_simp

text \<open>
  C4. The claim asks that the mode \<open>comprehensive\<close> selects the comprehensive prompt with
  3000 output tokens. The code has that branch, but the check of the mode in front of it
  replaces every mode other than short, bullet and detailed by short: a run with the mode
  \<open>comprehensive\<close> logs the mode as unknown and sends the short prompt with 1200 output
  tokens.
\<close>

theorem comprehensive_defaults_to_short:
  "checked_summary_type ''comprehensive'' s =
     (''short'', log_line (LogUnknownSummaryType ''comprehensive'') s)
   \<and> chunk_request ''short'' bullet_count chunk = (ChunkPrompt ShortPrompt chunk, 1200)
   \<and> chunk_request ''comprehensive'' bullet_count chunk = (ChunkPrompt ComprehensivePrompt chunk, 3000)
   \<and> trace (snd (summarize_via_gemini quiet_world ''abc'' ''comprehensive'' None init_state)) =
       [Log (LogUnknownSummaryType ''comprehensive''), Log (LogChunker 1 3),
        CallGenerateContent (ChunkPrompt ShortPrompt ''abc'') 1200,
        Log (LogChunkCompleted 1 1 3), Log LogSummaryGenerated]"
proof -
  have c: "chunk_request ''short'' bullet_count chunk = (ChunkPrompt ShortPrompt chunk, 1200)"
    for bullet_count chunk
    by (simp add: chunk_request_def)
  have d: "chunk_request ''comprehensive'' bullet_count chunk = (ChunkPrompt ComprehensivePrompt chunk, 3000)"
    by (simp add: chunk_request_def)
  have e: "trace (snd (summarize_via_gemini quiet_world ''abc'' ''comprehensive'' None init_state)) =
       [Log (LogUnknownSummaryType ''comprehensive''), Log (LogChunker 1 3),
        CallGenerateContent (ChunkPrompt ShortPrompt ''abc'') 1200,
        Log (LogChunkCompleted 1 1 3), Log LogSummaryGenerated]"
      by (simp add: summarize_via_gemini_def quiet_world_def checked_comprehensive strip_abc strip_summary chunker_def chunk_spans_def
          MAX_SAFE_CHUNK_def c call_generate_content_def log_line_def emit_def init_state_def)
  from checked_comprehensive c d e show ?thesis by blast
qed

section \<open>Frame lemmas of the state\<close>

lemma log_line_fields [simp]:
  "trace (log_line m s) = trace s @ [Log m]"
  "extract_calls (log_line m s) = extract_calls s"
  "http_calls (log_line m s) = http_calls s"
  "clock_reads (log_line m s) = clock_reads s"
  "generate_calls (log_line m s) = generate_calls s"
  by (simp_all add: log_line_def emit_def)

lemma emit_fields [simp]:
  "trace (emit e s) = trace s @ [e]"
  "extract_calls (emit e s) = extract_calls s"
  "http_calls (emit e s) = http_calls s"
  "clock_reads (emit e s) = clock_reads s"
  "generate_calls (emit e s) = generate_calls s"
  by (simp_all add: emit_def)

lemma call_http_get_fields [simp]:
  "fst (call_http_get w u s) = http_get w (http_calls s) u"
  "trace (snd (call_http_get w u s)) = trace s @ [CallHttpGet u]"
  "http_calls (snd (call_http_get w u s)) = Suc (http_calls s)"
  "extract_calls (snd (call_http_get w u s)) = extract_calls s"
  "clock_reads (snd (call_http_get w u s)) = clock_reads s"
  by (simp_all add: call_http_get_def)

lemma call_clock_fields [simp]:
  "fst (call_clock w s) = clock w (clock_reads s)"
  "trace (snd (call_clock w s)) = trace s @ [CallClock]"
  "http_calls (snd (call_clock w s)) = http_calls s"
  "extract_calls (snd (call_clock w s)) = extract_calls s"
  "clock_reads (snd (call_clock w s)) = Suc (clock_reads s)"
  by (simp_all add: call_clock_def)

lemma call_extract_info_fields [simp]:
  "fst (call_extract_info w u pc s) = extract_info w (extract_calls s) u pc"
  "trace (snd (call_extract_info w u pc s)) = trace s @ [CallExtractInfo u pc]"
  "http_calls (snd (call_extract_info w u pc s)) = http_calls s"
  "extract_calls (snd (call_extract_info w u pc s)) = Suc (extract_calls s)"
  "clock_reads (snd (call_extract_info w u pc s)) = clock_reads s"
  by (simp_all add: call_extract_info_def)

lemma http_requests_simps [simp]:
  "http_requests [] = []"
  "http_requests (tr @ tr') = http_requests tr @ http_requests tr'"
  "http_requests (CallHttpGet u # tr) = u # http_requests tr"
  "http_requests (Log m # tr) = http_requests tr"
  "http_requests (CallClock # tr) = http_requests tr"
  "http_requests (CallFetch t # tr) = http_requests tr"
  "http_requests (CallListTranscripts v # tr) = http_requests tr"
  "http_requests (CallExtractInfo v pc # tr) = http_requests tr"
  "http_requests (CallGenerateContent p n # tr) = http_requests tr"
  by (simp_all add: http_requests_def)

lemma fetch_segments_requests:
  "http_requests (trace (snd (fetch_segments w segs collected s))) =
     http_requests (trace s) @ segs
   \<and> http_calls (snd (fetch_segments w segs collected s)) = http_calls s + length segs"
proof (induction segs arbitrary: collected s)
  case Nil
  show ?case by simp
next
  case (Cons seg segs)
  obtain rs s1 where c: "call_http_get w seg s = (rs, s1)"
    by (cases "call_http_get w seg s")
  from c have s1: "trace s1 = trace s @ [CallHttpGet seg]" "http_calls s1 = Suc (http_calls s)"
    using call_http_get_fields(2,3) [of w seg s] by simp_all
  show ?case
  proof (cases rs)
    case (HttpRaises e)
    with c have "fetch_segments w (seg # segs) collected s =
        fetch_segments w segs collected (log_line (LogSegmentFetchFailed e) s1)"
      by simp
    with Cons [of collected "log_line (LogSegmentFetchFailed e) s1"] s1 show ?thesis
      by simp
  next
    case (HttpResponse status_code content)
    show ?thesis
    proof (cases "status_code = 200 \<and> strip (subtitle_to_plain w content) \<noteq> []")
      case True
      with c HttpResponse have "fetch_segments w (seg # segs) collected s =
          fetch_segments w segs (collected @ [subtitle_to_plain w content]) s1"
        by simp
      with Cons [of "collected @ [subtitle_to_plain w content]" s1] s1 show ?thesis
        by simp
    next
      case False
      with c HttpResponse have "fetch_segments w (seg # segs) collected s =
          fetch_segments w segs collected s1"
        by auto
      with Cons [of collected s1] s1 show ?thesis
        by simp
    qed
  qed
qed

section \<open>The segment cap of the playlist resolver\<close>

text \<open>
  The time guard follows the doubles: with the clock readings 0.1 and 16.1 the rounded
  difference is 16.0, which is not above the limit, and the loop goes on.
\<close>

lemma deadline_passed_examples:
  "\<not> deadline_passed (161 / 10) (1 / 10)"
  "\<not> deadline_passed 16 0"
  "deadline_passed 17 0"
  by (simp_all add: deadline_passed_def REQUEST_TIMEOUT_def)

text \<open>
  The candidate loop resolves a playlist exactly for a response with status 200 whose
  content, after leading whitespace, starts with \<open>#EXTM3U\<close>; with a single candidate the
  requests of the loop are the one for the track and those of the resolver.
\<close>

lemma candidate_loop_playlist:
  assumes "\<not> deadline_passed (clock w (clock_reads s)) start"
    and "url cand = Some u" and "u \<noteq> []"
    and "http_get w (http_calls s) u = HttpResponse 200 body"
    and "strip body \<noteq> []"
    and "startswith (lstrip body) ''#EXTM3U''"
  shows "http_requests (trace (snd (candidate_loop w start idx [cand] s))) =
           http_requests (trace s) @ u # take max_segs (playlist_segments w u body)"
proof -
  let ?s1 = "snd (call_clock w s)"
  let ?s2 = "snd (call_http_get w u ?s1)"
  let ?R = "resolve_playlist w u body ?s2"
  have r: "http_requests (trace (snd ?R)) =
      http_requests (trace s) @ u # take max_segs (playlist_segments w u body)"
    using fetch_segments_requests [of w "take max_segs (playlist_segments w u body)" "[]"
        "log_line LogDetectedHls ?s2"]
    by (simp add: resolve_playlist_def)
  have get: "fst (call_http_get w u ?s1) = HttpResponse 200 body"
    using assms(4) by simp
  have step: "candidate_loop w start idx [cand] s =
      (if fst ?R \<noteq> []
       then (Some (join '' '' (fst ?R)), log_line (LogFetchedHlsSegments (length (fst ?R))) (snd ?R))
       else (None, snd ?R))"
    using assms(1,2,3,5,6) get
    by (simp add: Let_def case_prod_beta)
  show ?thesis
    unfolding step using r by simp
qed

text \<open>
  C9. For a subtitle content that starts with the playlist marker (the branch
  \<open>resolve_playlist\<close> of the candidate loop), the segment requests are exactly the first
  \<open>max_segs\<close> segment URLs of the playlist, in order, whatever the number of segments it
  lists: at most \<open>max_segs = min HLS_SEGMENT_LIMIT 20 = 20\<close> requests, and the cap is at most
  \<open>HLS_SEGMENT_LIMIT = 30\<close>.
\<close>

theorem hls_segment_cap:
  "http_requests (trace (snd (resolve_playlist w u text s))) =
     http_requests (trace s) @ take max_segs (playlist_segments w u text)
   \<and> http_calls (snd (resolve_playlist w u text s)) - http_calls s =
       min max_segs (length (playlist_segments w u text))
   \<and> http_calls (snd (resolve_playlist w u text s)) - http_calls s \<le> 20
   \<and> max_segs = min HLS_SEGMENT_LIMIT 20 \<and> max_segs = 20 \<and> max_segs \<le> HLS_SEGMENT_LIMIT
   \<and> HLS_SEGMENT_LIMIT = 30"
proof -
  have m: "max_segs = 20"
    by (simp add: max_segs_def HLS_SEGMENT_LIMIT_def)
  have r: "resolve_playlist w u text s =
      fetch_segments w (take max_segs (playlist_segments w u text)) [] (log_line LogDetectedHls s)"
    by (simp add: resolve_playlist_def)
  have a: "http_requests (trace (snd (resolve_playlist w u text s))) =
     http_requests (trace s) @ take max_segs (playlist_segments w u text)"
    unfolding r
    using fetch_segments_requests [of w "take max_segs (playlist_segments w u text)" "[]"
        "log_line LogDetectedHls s"]
    by simp
  have b: "http_calls (snd (resolve_playlist w u text s)) =
       http_calls s + length (take max_segs (playlist_segments w u text))"
    unfolding r
    using fetch_segments_requests [of w "take max_segs (playlist_segments w u text)" "[]"
        "log_line LogDetectedHls s"]
    by simp
  have c: "http_calls (snd (resolve_playlist w u text s)) - http_calls s =
       min max_segs (length (playlist_segments w u text))"
    unfolding b by (simp add: min.commute)
  have d: "http_calls (snd (resolve_playlist w u text s)) - http_calls s \<le> 20"
    unfolding c m by simp
  have e: "max_segs = min HLS_SEGMENT_LIMIT 20"
    by (simp add: max_segs_def)
  have f: "max_segs \<le> HLS_SEGMENT_LIMIT" "HLS_SEGMENT_LIMIT = 30"
    by (simp_all add: max_segs_def HLS_SEGMENT_LIMIT_def)
  from a c d e m f show ?thesis by blast
qed

section \<open>No blank transcript\<close>

lemma strip_empty_iff: "strip x = [] \<longleftrightarrow> (\<forall>c \<in> set x. is_space c)"
proof
  assume "strip x = []"
  then have "dropWhile is_space (rev (dropWhile is_space x)) = []"
    by (simp add: strip_def)
  then have a: "\<forall>c \<in> set (dropWhile is_space x). is_space c"
    by (simp add: dropWhile_eq_Nil_conv)
  have b: "\<forall>c \<in> set (takeWhile is_space x). is_space c"
    by (meson set_takeWhileD)
  have "set x = set (takeWhile is_space x) \<union> set (dropWhile is_space x)"
    by (metis set_append takeWhile_dropWhile_id)
  with a b show "\<forall>c \<in> set x. is_space c" by blast
next
  assume "\<forall>c \<in> set x. is_space c"
  then show "strip x = []"
    by (auto simp: strip_def dest: set_dropWhileD)
qed

lemma join_contains: "x \<in> set xs \<Longrightarrow> set x \<subseteq> set (join sep xs)"
proof (induction sep xs rule: join.induct)
  case (1 sep)
  then show ?case by simp
next
  case (2 sep y)
  then show ?case by simp
next
  case (3 sep y z zs)
  then show ?case by auto
qed

lemma strip_join_nonempty:
  assumes "xs \<noteq> []" and "\<forall>x \<in> set xs. strip x \<noteq> []"
  shows "strip (join sep xs) \<noteq> []"
proof -
  from assms obtain x where x: "x \<in> set xs" "strip x \<noteq> []"
    by (cases xs) auto
  then obtain c where "c \<in> set x" "\<not> is_space c"
    by (auto simp: strip_empty_iff)
  with join_contains [OF x(1), of sep] show ?thesis
    by (auto simp: strip_empty_iff)
qed

lemma fetch_segments_collected:
  "\<forall>x \<in> set collected. strip x \<noteq> [] \<Longrightarrow>
   \<forall>x \<in> set (fst (fetch_segments w segs collected s)). strip x \<noteq> []"
proof (induction segs arbitrary: collected s)
  case Nil
  then show ?case by simp
next
  case (Cons seg segs)
  obtain rs s1 where c: "call_http_get w seg s = (rs, s1)"
    by (cases "call_http_get w seg s")
  show ?case
  proof (cases rs)
    case (HttpRaises e)
    with c have "fetch_segments w (seg # segs) collected s =
        fetch_segments w segs collected (log_line (LogSegmentFetchFailed e) s1)"
      by simp
    with Cons show ?thesis by simp
  next
    case (HttpResponse status_code content)
    show ?thesis
    proof (cases "status_code = 200 \<and> strip (subtitle_to_plain w content) \<noteq> []")
      case True
      with c HttpResponse have e: "fetch_segments w (seg # segs) collected s =
          fetch_segments w segs (collected @ [subtitle_to_plain w content]) s1"
        by simp
      have "\<forall>x \<in> set (collected @ [subtitle_to_plain w content]). strip x \<noteq> []"
        using Cons.prems True by simp
      from Cons.IH [OF this] show ?thesis unfolding e .
    next
      case False
      with c HttpResponse have e: "fetch_segments w (seg # segs) collected s =
          fetch_segments w segs collected s1"
        by auto
      from Cons.IH [OF Cons.prems] show ?thesis unfolding e .
    qed
  qed
qed

lemma resolve_playlist_collected:
  "\<forall>x \<in> set (fst (resolve_playlist w u text s)). strip x \<noteq> []"
  unfolding resolve_playlist_def by (rule fetch_segments_collected) simp

lemma candidate_loop_nonempty:
  "fst (candidate_loop w start idx cands s) = Some t \<Longrightarrow> strip t \<noteq> []"
proof (induction cands arbitrary: idx s)
  case Nil
  then show ?case by simp
next
  case (Cons cand rest)
  obtain now s1 where c1: "call_clock w s = (now, s1)"
    by (cases "call_clock w s")
  show ?case
  proof (cases "deadline_passed now start")
    case True
    with c1 Cons.prems show ?thesis by simp
  next
    case late: False
    show ?thesis
    proof (cases "url cand = None \<or> url cand = Some []")
      case True
      with c1 late have "candidate_loop w start idx (cand # rest) s =
          candidate_loop w start (idx + 1) rest s1"
        by simp
      with Cons show ?thesis by simp
    next
      case False
      then obtain u where hasurl: "url cand = Some u" "u \<noteq> []"
        by auto
      obtain r s2 where c2: "call_http_get w (u) s1 = (r, s2)"
        by (cases "call_http_get w (u) s1")
      show ?thesis
      proof (cases r)
        case (HttpRaises e)
        with c1 c2 late hasurl have "candidate_loop w start idx (cand # rest) s =
            candidate_loop w start (idx + 1) rest
              (log_line (LogSubtitleAttemptFailed (idx + 1) (take 80 e)) s2)"
          by simp
        with Cons show ?thesis by simp
      next
        case (HttpResponse status_code body)
        show ?thesis
        proof (cases "status_code = 200 \<and> strip body \<noteq> []")
          case False
          with c1 c2 late hasurl HttpResponse have "candidate_loop w start idx (cand # rest) s =
              candidate_loop w start (idx + 1) rest s2"
            by auto
          with Cons show ?thesis by simp
        next
          case ok: True
          show ?thesis
          proof (cases "startswith (lstrip body) ''#EXTM3U''")
            case True
            obtain collected s3 where c3: "resolve_playlist w (u) body s2 = (collected, s3)"
              by (cases "resolve_playlist w (u) body s2")
            have coll: "\<forall>x \<in> set collected. strip x \<noteq> []"
              using resolve_playlist_collected [of w "u" body s2] c3 by simp
            show ?thesis
            proof (cases "collected = []")
              case True
              with c1 c2 c3 late hasurl HttpResponse ok \<open>startswith (lstrip body) ''#EXTM3U''\<close>
              have "candidate_loop w start idx (cand # rest) s =
                  candidate_loop w start (idx + 1) rest s3"
                by simp
              with Cons show ?thesis by simp
            next
              case False
              with c1 c2 c3 late hasurl HttpResponse ok \<open>startswith (lstrip body) ''#EXTM3U''\<close>
              have "candidate_loop w start idx (cand # rest) s =
                  (Some (join '' '' collected), log_line (LogFetchedHlsSegments (length collected)) s3)"
                by simp
              with Cons.prems have "t = join '' '' collected" by simp
              with strip_join_nonempty [OF False coll] show ?thesis by simp
            qed
          next
            case noth: False
            show ?thesis
            proof (cases "strip (subtitle_to_plain w body) \<noteq> []")
              case True
              with c1 c2 late hasurl HttpResponse ok noth
              have "candidate_loop w start idx (cand # rest) s =
                  (Some (subtitle_to_plain w body), log_line (LogSubtitleFetchSucceeded (idx + 1)) s2)"
                by simp
              with Cons.prems True show ?thesis by simp
            next
              case False
              with c1 c2 late hasurl HttpResponse ok noth
              have "candidate_loop w start idx (cand # rest) s =
                  candidate_loop w start (idx + 1) rest s2"
                by simp
              with Cons show ?thesis by simp
            qed
          qed
        qed
      qed
    qed
  qed
qed

lemma strip_nonempty_imp: "strip t \<noteq> [] \<Longrightarrow> t \<noteq> []"
  by (auto simp: strip_def)

lemma fetch_attempts_nonempty:
  "fst (fetch_attempts idx n ts s) = Some t \<Longrightarrow> strip t \<noteq> []"
proof (induction ts arbitrary: idx s)
  case Nil
  then show ?case by simp
next
  case (Cons a ts)
  show ?case
  proof (cases "fetch a")
    case (Inl e)
    with Cons show ?thesis
      by (cases "is_no_element_found e") (simp_all add: Let_def)
  next
    case (Inr fetched)
    with Cons show ?thesis
      by (cases "fetched \<noteq> [] \<and> strip (segments_text fetched) \<noteq> []") (auto simp: Let_def)
  qed
qed

lemma try_transcript_api_nonempty:
  "fst (try_transcript_api w video_id s) = Some t \<Longrightarrow> strip t \<noteq> []"
  by (cases "list_transcripts w video_id")
     (auto simp: try_transcript_api_def Let_def dest: fetch_attempts_nonempty)

lemma try_ytdlp_subtitles_nonempty:
  assumes "fst (try_ytdlp_subtitles w video_url s) = Some t"
  shows "strip t \<noteq> []"
proof -
  obtain start s2 where c: "call_clock w (log_line LogAttemptingYtdlp s) = (start, s2)"
    by (cases "call_clock w (log_line LogAttemptingYtdlp s)")
  obtain r s3 where x: "extract_with_stable_client w video_url s2 = (r, s3)"
    by (cases "extract_with_stable_client w video_url s2")
  show ?thesis
  proof (cases r)
    case (Inl e)
    with assms c x show ?thesis by (simp add: try_ytdlp_subtitles_def)
  next
    case (Inr i)
    obtain res s4 where l: "candidate_loop w start 0 (build_candidates (merge_tracks i)) s3 = (res, s4)"
      by (cases "candidate_loop w start 0 (build_candidates (merge_tracks i)) s3")
    from assms c x Inr l have "res = Some t"
      by (cases res) (simp_all add: try_ytdlp_subtitles_def)
    with l candidate_loop_nonempty [of w start 0 "build_candidates (merge_tracks i)" s3 t]
    show ?thesis by simp
  qed
qed

text \<open>
  C6. The caption-API fetcher and the yt-dlp subtitle fetcher return \<open>None\<close> or a text
  whose stripped form is not empty (so the text is not empty either), for every world,
  input and state.
\<close>

theorem stages_never_return_blank:
  "(case fst (try_transcript_api w video_id s) of
      None \<Rightarrow> True
    | Some t \<Rightarrow> t \<noteq> [] \<and> strip t \<noteq> [])
   \<and> (case fst (try_ytdlp_subtitles w video_url s') of
      None \<Rightarrow> True
    | Some t \<Rightarrow> t \<noteq> [] \<and> strip t \<noteq> [])"
proof -
  have a: "case fst (try_transcript_api w video_id s) of
      None \<Rightarrow> True | Some t \<Rightarrow> t \<noteq> [] \<and> strip t \<noteq> []"
    using try_transcript_api_nonempty [of w video_id s] strip_nonempty_imp
    by (cases "fst (try_transcript_api w video_id s)") auto
  have b: "case fst (try_ytdlp_subtitles w video_url s') of
      None \<Rightarrow> True | Some t \<Rightarrow> t \<noteq> [] \<and> strip t \<noteq> []"
    using try_ytdlp_subtitles_nonempty [of w video_url s'] strip_nonempty_imp
    by (cases "fst (try_ytdlp_subtitles w video_url s')") auto
  from a b show ?thesis by simp
qed

section \<open>Every stage only extends the trace\<close>

lemma prefix_snoc: "prefix xs ys \<Longrightarrow> prefix xs (ys @ zs)"
  by (simp add: prefix_def) (metis append.assoc)

lemma prefix_via: "prefix (xs @ zs) ys \<Longrightarrow> prefix xs ys"
  by (metis append_prefixD)

lemma try_strategies_extends:
  "prefix (trace s) (trace (snd (try_strategies w video_url idx strats last_error s)))"
proof (induction strats arbitrary: idx last_error s)
  case Nil
  show ?case by (cases last_error) simp_all
next
  case (Cons strategy rest)
  let ?s1 = "log_line (LogTryingStrategy (idx + 1) (length strategies) strategy) s"
  obtain r s2 where c: "call_extract_info w video_url strategy ?s1 = (r, s2)"
    by (cases "call_extract_info w video_url strategy ?s1")
  then have s2: "trace s2 = trace s @ [Log (LogTryingStrategy (idx + 1) (length strategies) strategy),
      CallExtractInfo video_url strategy]"
    using call_extract_info_fields(2) [of w video_url strategy ?s1] by simp
  show ?case
  proof (cases r)
    case (ExtractInfo i)
    with c s2 show ?thesis by (simp add: Let_def)
  next
    case ExtractNone
    with c have "try_strategies w video_url idx (strategy # rest) last_error s =
        try_strategies w video_url (idx + 1) rest last_error s2"
      by (simp add: Let_def)
    moreover have "prefix (trace s2)
        (trace (snd (try_strategies w video_url (idx + 1) rest last_error s2)))"
      by (rule Cons)
    ultimately show ?thesis using s2
      by (simp add: prefix_via)
  next
    case (ExtractRaises e)
    show ?thesis
    proof (cases "is_permanent e")
      case True
      with c s2 ExtractRaises show ?thesis by (simp add: Let_def)
    next
      case False
      with c ExtractRaises have "try_strategies w video_url idx (strategy # rest) last_error s =
          try_strategies w video_url (idx + 1) rest (Some e)
            (log_line (LogStrategyFailed strategy (take 100 e)) s2)"
        by (simp add: Let_def)
      moreover have "prefix (trace (log_line (LogStrategyFailed strategy (take 100 e)) s2))
          (trace (snd (try_strategies w video_url (idx + 1) rest (Some e)
            (log_line (LogStrategyFailed strategy (take 100 e)) s2))))"
        by (rule Cons)
      ultimately show ?thesis using s2
        by (simp add: prefix_via)
    qed
  qed
qed

lemma extract_with_stable_client_extends:
  "prefix (trace s) (trace (snd (extract_with_stable_client w video_url s)))"
  by (simp add: extract_with_stable_client_def try_strategies_extends)

lemma fetch_segments_extends:
  "prefix (trace s) (trace (snd (fetch_segments w segs collected s)))"
proof (induction segs arbitrary: collected s)
  case Nil
  show ?case by simp
next
  case (Cons seg segs)
  obtain rs s1 where c: "call_http_get w seg s = (rs, s1)"
    by (cases "call_http_get w seg s")
  from c have s1: "trace s1 = trace s @ [CallHttpGet seg]"
    using call_http_get_fields(2) [of w seg s] by simp
  show ?case
  proof (cases rs)
    case (HttpRaises e)
    with c have "fetch_segments w (seg # segs) collected s =
        fetch_segments w segs collected (log_line (LogSegmentFetchFailed e) s1)"
      by simp
    moreover have "prefix (trace (log_line (LogSegmentFetchFailed e) s1))
        (trace (snd (fetch_segments w segs collected (log_line (LogSegmentFetchFailed e) s1))))"
      by (rule Cons)
    ultimately show ?thesis using s1
      by (simp add: prefix_via)
  next
    case (HttpResponse status_code content)
    show ?thesis
    proof (cases "status_code = 200 \<and> strip (subtitle_to_plain w content) \<noteq> []")
      case True
      with c HttpResponse have "fetch_segments w (seg # segs) collected s =
          fetch_segments w segs (collected @ [subtitle_to_plain w content]) s1"
        by simp
      moreover have "prefix (trace s1)
          (trace (snd (fetch_segments w segs (collected @ [subtitle_to_plain w content]) s1)))"
        by (rule Cons)
      ultimately show ?thesis using s1
        by (simp add: prefix_via)
    next
      case False
      with c HttpResponse have "fetch_segments w (seg # segs) collected s =
          fetch_segments w segs collected s1"
        by auto
      moreover have "prefix (trace s1) (trace (snd (fetch_segments w segs collected s1)))"
        by (rule Cons)
      ultimately show ?thesis using s1
        by (simp add: prefix_via)
    qed
  qed
qed

lemma resolve_playlist_extends:
  "prefix (trace s) (trace (snd (resolve_playlist w u body s)))"
  unfolding resolve_playlist_def
  using fetch_segments_extends [of "log_line LogDetectedHls s" w "take max_segs (playlist_segments w u body)" "[]"]
  by (simp add: prefix_via)

lemma candidate_loop_extends:
  "prefix (trace s) (trace (snd (candidate_loop w start idx cands s)))"
proof (induction cands arbitrary: idx s)
  case Nil
  show ?case by simp
next
  case (Cons cand rest)
  obtain now s1 where c1: "call_clock w s = (now, s1)"
    by (cases "call_clock w s")
  then have s1: "trace s1 = trace s @ [CallClock]"
    using call_clock_fields(2) [of w s] by simp
  have ih: "prefix (trace s1) (trace x) \<Longrightarrow>
      prefix (trace s) (trace (snd (candidate_loop w start (idx + 1) rest x)))" for x
  proof -
    assume "prefix (trace s1) (trace x)"
    then have "prefix (trace s) (trace x)"
      using s1 by (simp add: prefix_via)
    moreover have "prefix (trace x) (trace (snd (candidate_loop w start (idx + 1) rest x)))"
      by (rule Cons)
    ultimately show ?thesis by (rule prefix_order.trans)
  qed
  show ?case
  proof (cases "deadline_passed now start")
    case True
    with c1 s1 show ?thesis by simp
  next
    case late: False
    show ?thesis
    proof (cases "url cand = None \<or> url cand = Some []")
      case True
      with c1 late have "candidate_loop w start idx (cand # rest) s =
          candidate_loop w start (idx + 1) rest s1"
        by simp
      with ih [of s1] show ?thesis by simp
    next
      case False
      then obtain u where hasurl: "url cand = Some u" "u \<noteq> []"
        by auto
      obtain r s2 where c2: "call_http_get w u s1 = (r, s2)"
        by (cases "call_http_get w u s1")
      then have s2: "prefix (trace s1) (trace s2)"
        using call_http_get_fields(2) [of w u s1] by simp
      show ?thesis
      proof (cases r)
        case (HttpRaises e)
        with c1 c2 late hasurl have "candidate_loop w start idx (cand # rest) s =
            candidate_loop w start (idx + 1) rest
              (log_line (LogSubtitleAttemptFailed (idx + 1) (take 80 e)) s2)"
          by simp
        with ih [of "log_line (LogSubtitleAttemptFailed (idx + 1) (take 80 e)) s2"] s2
        show ?thesis by (simp add: prefix_snoc)
      next
        case (HttpResponse status_code body)
        show ?thesis
        proof (cases "status_code = 200 \<and> strip body \<noteq> []")
          case False
          with c1 c2 late hasurl HttpResponse have "candidate_loop w start idx (cand # rest) s =
              candidate_loop w start (idx + 1) rest s2"
            by auto
          with ih [of s2] s2 show ?thesis by simp
        next
          case ok: True
          show ?thesis
          proof (cases "startswith (lstrip body) ''#EXTM3U''")
            case True
            obtain collected s3 where c3: "resolve_playlist w u body s2 = (collected, s3)"
              by (cases "resolve_playlist w u body s2")
            have "prefix (trace s2) (trace s3)"
              using resolve_playlist_extends [of s2 w u body] c3 by simp
            with s2 have s3: "prefix (trace s1) (trace s3)"
              by (rule prefix_order.trans)
            show ?thesis
            proof (cases "collected = []")
              case True
              with c1 c2 c3 late hasurl HttpResponse ok \<open>startswith (lstrip body) ''#EXTM3U''\<close>
              have "candidate_loop w start idx (cand # rest) s =
                  candidate_loop w start (idx + 1) rest s3"
                by simp
              with ih [of s3] s3 show ?thesis by simp
            next
              case False
              with c1 c2 c3 late hasurl HttpResponse ok \<open>startswith (lstrip body) ''#EXTM3U''\<close>
              have "candidate_loop w start idx (cand # rest) s =
                  (Some (join '' '' collected), log_line (LogFetchedHlsSegments (length collected)) s3)"
                by simp
              moreover have "prefix (trace s) (trace s3)"
                using s3 s1 by (simp add: prefix_via)
              ultimately show ?thesis by (simp add: prefix_snoc)
            qed
          next
            case noth: False
            show ?thesis
            proof (cases "strip (subtitle_to_plain w body) \<noteq> []")
              case True
              with c1 c2 late hasurl HttpResponse ok noth
              have "candidate_loop w start idx (cand # rest) s =
                  (Some (subtitle_to_plain w body), log_line (LogSubtitleFetchSucceeded (idx + 1)) s2)"
                by simp
              moreover have "prefix (trace s) (trace s2)"
                using s2 s1 by (simp add: prefix_via)
              ultimately show ?thesis by (simp add: prefix_snoc)
            next
              case False
              with c1 c2 late hasurl HttpResponse ok noth
              have "candidate_loop w start idx (cand # rest) s =
                  candidate_loop w start (idx + 1) rest s2"
                by simp
              with ih [of s2] s2 show ?thesis by simp
            qed
          qed
        qed
      qed
    qed
  qed
qed

lemma try_ytdlp_subtitles_extends:
  "prefix (trace s @ [Log LogAttemptingYtdlp]) (trace (snd (try_ytdlp_subtitles w video_url s)))"
proof -
  let ?s1 = "log_line LogAttemptingYtdlp s"
  obtain start s2 where c: "call_clock w ?s1 = (start, s2)"
    by (cases "call_clock w ?s1")
  then have s2: "prefix (trace ?s1) (trace s2)"
    using call_clock_fields(2) [of w ?s1] by simp
  obtain r s3 where x: "extract_with_stable_client w video_url s2 = (r, s3)"
    by (cases "extract_with_stable_client w video_url s2")
  have "prefix (trace s2) (trace s3)"
    using extract_with_stable_client_extends [of s2 w video_url] x by simp
  with s2 have s3: "prefix (trace ?s1) (trace s3)"
    by (rule prefix_order.trans)
  show ?thesis
  proof (cases r)
    case (Inl e)
    with c x have "try_ytdlp_subtitles w video_url s = (None, log_line (LogYtdlpFailed (take 100 e)) s3)"
      by (simp add: try_ytdlp_subtitles_def)
    with s3 show ?thesis by (simp add: prefix_snoc)
  next
    case (Inr i)
    obtain res s4 where l: "candidate_loop w start 0 (build_candidates (merge_tracks i)) s3 = (res, s4)"
      by (cases "candidate_loop w start 0 (build_candidates (merge_tracks i)) s3")
    have "prefix (trace s3) (trace s4)"
      using candidate_loop_extends [of s3 w start 0 "build_candidates (merge_tracks i)"] l by simp
    with s3 have s4: "prefix (trace ?s1) (trace s4)"
      by (rule prefix_order.trans)
    show ?thesis
    proof (cases res)
      case None
      with c x Inr l have "try_ytdlp_subtitles w video_url s = (None, log_line LogNoUsableSubtitles s4)"
        by (simp add: try_ytdlp_subtitles_def)
      with s4 show ?thesis by (simp add: prefix_snoc)
    next
      case (Some t)
      with c x Inr l have "try_ytdlp_subtitles w video_url s = (Some t, s4)"
        by (simp add: try_ytdlp_subtitles_def)
      with s4 show ?thesis by simp
    qed
  qed
qed

lemma metadata_fallback_extends:
  "prefix (trace s @ [Log LogNoSubtitlesAvailable])
     (trace (snd (metadata_fallback w video_url transcript s)))"
proof -
  let ?s1 = "log_line LogNoSubtitlesAvailable s"
  obtain r s2 where x: "extract_with_stable_client w video_url ?s1 = (r, s2)"
    by (cases "extract_with_stable_client w video_url ?s1")
  have s2: "prefix (trace ?s1) (trace s2)"
    using extract_with_stable_client_extends [of ?s1 w video_url] x by simp
  show ?thesis
  proof (cases r)
    case (Inl e)
    with x s2 show ?thesis
      by (simp add: metadata_fallback_def prefix_snoc)
  next
    case (Inr i)
    with x s2 show ?thesis
      by (simp add: metadata_fallback_def Let_def prefix_snoc split: option.splits)
  qed
qed

lemma final_metadata_extends:
  "prefix (trace s @ [Log LogFinalAttempt]) (trace (snd (final_metadata w video_url s)))"
proof -
  let ?s1 = "log_line LogFinalAttempt s"
  obtain r s2 where x: "extract_with_stable_client w video_url ?s1 = (r, s2)"
    by (cases "extract_with_stable_client w video_url ?s1")
  have s2: "prefix (trace ?s1) (trace s2)"
    using extract_with_stable_client_extends [of ?s1 w video_url] x by simp
  show ?thesis
  proof (cases r)
    case (Inl e)
    with x s2 show ?thesis
      by (simp add: final_metadata_def prefix_snoc)
  next
    case (Inr i)
    with x s2 show ?thesis
      by (simp add: final_metadata_def prefix_snoc split: sum.splits)
  qed
qed

section \<open>Failures of the caption fetcher\<close>

lemma fetch_calls_simps [simp]:
  "fetch_calls [] = []"
  "fetch_calls (tr @ tr') = fetch_calls tr @ fetch_calls tr'"
  "fetch_calls (CallFetch t # tr) = t # fetch_calls tr"
  "fetch_calls (Log m # tr) = fetch_calls tr"
  "fetch_calls (CallListTranscripts v # tr) = fetch_calls tr"
  by (simp_all add: fetch_calls_def)

lemma extract_requests_simps [simp]:
  "extract_requests [] = []"
  "extract_requests (tr @ tr') = extract_requests tr @ extract_requests tr'"
  "extract_requests (CallExtractInfo v pc # tr) = pc # extract_requests tr"
  "extract_requests (CallFetch t # tr) = extract_requests tr"
  "extract_requests (Log m # tr) = extract_requests tr"
  "extract_requests (CallListTranscripts v # tr) = extract_requests tr"
  "extract_requests (CallClock # tr) = extract_requests tr"
  "extract_requests (CallHttpGet u # tr) = extract_requests tr"
  by (simp_all add: extract_requests_def)

lemma fetch_attempts_abort:
  assumes "fetch t = Inl e" and "is_no_element_found e"
  shows "fetch_attempts idx n (t # ts) s =
           (None, log_line LogTranscriptXmlEmpty (emit (CallFetch t)
              (log_line (LogFetchingTranscript (idx + 1) n (language t) (language_code t)) s)))"
  using assms by (simp add: Let_def)

lemma fetch_attempts_continue:
  assumes "fetch t = Inl e" and "\<not> is_no_element_found e"
  shows "fetch_attempts idx n (t # ts) s =
           fetch_attempts (idx + 1) n ts
             (log_line (LogTranscriptAttemptFailed (idx + 1) (take 80 e)) (emit (CallFetch t)
                (log_line (LogFetchingTranscript (idx + 1) n (language t) (language_code t)) s)))"
  using assms by (simp add: Let_def)

lemma fetch_attempts_skip:
  assumes "list_all yields_nothing before"
  shows "\<exists>s'. fetch_attempts idx n (before @ rest) s = fetch_attempts (idx + length before) n rest s'
            \<and> fetch_calls (trace s') = fetch_calls (trace s) @ before
            \<and> extract_calls s' = extract_calls s"
  using assms
proof (induction before arbitrary: idx s)
  case Nil
  show ?case by (rule exI [of _ s]) simp
next
  case (Cons a before)
  let ?s2 = "emit (CallFetch a)
      (log_line (LogFetchingTranscript (idx + 1) n (language a) (language_code a)) s)"
  from Cons.prems have a: "yields_nothing a" and b: "list_all yields_nothing before"
    by simp_all
  have "\<exists>s1. fetch_attempts idx n (a # before @ rest) s =
           fetch_attempts (idx + 1) n (before @ rest) s1
         \<and> fetch_calls (trace s1) = fetch_calls (trace s) @ [a]
         \<and> extract_calls s1 = extract_calls s"
  proof (cases "fetch a")
    case (Inl e)
    with a have "\<not> is_no_element_found e" by (simp add: yields_nothing_def)
    with Inl have "fetch_attempts idx n (a # before @ rest) s =
        fetch_attempts (idx + 1) n (before @ rest)
          (log_line (LogTranscriptAttemptFailed (idx + 1) (take 80 e)) ?s2)"
      by (simp add: Let_def)
    moreover have "fetch_calls (trace (log_line (LogTranscriptAttemptFailed (idx + 1) (take 80 e)) ?s2))
        = fetch_calls (trace s) @ [a]"
      by simp
    moreover have "extract_calls (log_line (LogTranscriptAttemptFailed (idx + 1) (take 80 e)) ?s2)
        = extract_calls s"
      by simp
    ultimately show ?thesis by blast
  next
    case (Inr fetched)
    with a have "\<not> (fetched \<noteq> [] \<and> strip (segments_text fetched) \<noteq> [])"
      by (simp add: yields_nothing_def)
    with Inr have "fetch_attempts idx n (a # before @ rest) s =
        fetch_attempts (idx + 1) n (before @ rest) ?s2"
      by (auto simp: Let_def)
    moreover have "fetch_calls (trace ?s2) = fetch_calls (trace s) @ [a]"
      by simp
    moreover have "extract_calls ?s2 = extract_calls s"
      by simp
    ultimately show ?thesis by blast
  qed
  then obtain s1 where s1: "fetch_attempts idx n (a # before @ rest) s =
           fetch_attempts (idx + 1) n (before @ rest) s1"
      "fetch_calls (trace s1) = fetch_calls (trace s) @ [a]" "extract_calls s1 = extract_calls s"
    by blast
  from Cons.IH [OF b, of "idx + 1" s1] obtain s' where
    "fetch_attempts (idx + 1) n (before @ rest) s1 =
       fetch_attempts (idx + 1 + length before) n rest s'"
    "fetch_calls (trace s') = fetch_calls (trace s1) @ before"
    "extract_calls s' = extract_calls s1"
    by blast
  with s1 show ?case by auto
qed

lemma pipeline_unfold:
  assumes "extract_video_id video_url = Inr vid"
  shows "extract_transcript_from_youtube w video_url s =
    (let A = try_transcript_api w vid (log_line (LogStart video_url) s);
         B = (if falsy (fst A) then try_ytdlp_subtitles w video_url (snd A) else A);
         C = (if falsy (fst B) then metadata_fallback w video_url (fst B) (snd B) else B)
     in if \<not> falsy (fst C) \<and> strip (the (fst C)) \<noteq> [] then (Inr (the (fst C)), snd C)
        else final_metadata w video_url (snd C))"
  using assms by (simp add: extract_transcript_from_youtube_def Let_def case_prod_beta)

lemma pipeline_tail_extends:
  "prefix (trace (snd B))
     (trace (snd (let C = (if falsy (fst B) then metadata_fallback w video_url (fst B) (snd B) else B)
      in if \<not> falsy (fst C) \<and> strip (the (fst C)) \<noteq> [] then (Inr (the (fst C)), snd C)
         else final_metadata w video_url (snd C))))"
proof -
  let ?C = "(if falsy (fst B) then metadata_fallback w video_url (fst B) (snd B) else B)"
  have c: "prefix (trace (snd B)) (trace (snd ?C))"
    using metadata_fallback_extends [of "snd B" w video_url "fst B"]
    by (simp add: prefix_via)
  have f: "prefix (trace (snd ?C)) (trace (snd (final_metadata w video_url (snd ?C))))"
    using final_metadata_extends [of "snd ?C" w video_url] by (rule prefix_via)
  from c f have "prefix (trace (snd B)) (trace (snd (final_metadata w video_url (snd ?C))))"
    by (rule prefix_order.trans)
  with c show ?thesis by (simp add: Let_def)
qed

lemma pipeline_after_caption_failure:
  assumes "extract_video_id video_url = Inr vid"
    and "fst (try_transcript_api w vid (log_line (LogStart video_url) s)) = None"
  shows "prefix
     (trace (snd (try_ytdlp_subtitles w video_url
        (snd (try_transcript_api w vid (log_line (LogStart video_url) s))))))
     (trace (snd (extract_transcript_from_youtube w video_url s)))"
proof -
  define B where "B = try_ytdlp_subtitles w video_url
      (snd (try_transcript_api w vid (log_line (LogStart video_url) s)))"
  define R where "R =
    (let C = (if falsy (fst B) then metadata_fallback w video_url (fst B) (snd B) else B)
      in if \<not> falsy (fst C) \<and> strip (the (fst C)) \<noteq> [] then (Inr (the (fst C)), snd C)
         else final_metadata w video_url (snd C))"
  have pre: "prefix (trace (snd B)) (trace (snd R))"
    unfolding R_def by (rule pipeline_tail_extends)
  have fA: "falsy (fst (try_transcript_api w vid (log_line (LogStart video_url) s)))"
    using assms(2) by (simp add: falsy_def)
  have "extract_transcript_from_youtube w video_url s = R"
    unfolding R_def B_def pipeline_unfold [OF assms(1)]
    by (simp only: Let_def fA if_True)
  with pre show ?thesis unfolding B_def by simp
qed

lemma pipeline_enters_ytdlp:
  assumes "extract_video_id video_url = Inr vid"
    and "fst (try_transcript_api w vid (log_line (LogStart video_url) s)) = None"
  shows "Log LogAttemptingYtdlp \<in> set (trace (snd (extract_transcript_from_youtube w video_url s)))"
proof -
  let ?A = "try_transcript_api w vid (log_line (LogStart video_url) s)"
  let ?B = "try_ytdlp_subtitles w video_url (snd ?A)"
  have "prefix (trace (snd ?A) @ [Log LogAttemptingYtdlp]) (trace (snd ?B))"
    by (rule try_ytdlp_subtitles_extends)
  moreover have "prefix (trace (snd ?B)) (trace (snd (extract_transcript_from_youtube w video_url s)))"
    using assms by (rule pipeline_after_caption_failure)
  ultimately have "prefix (trace (snd ?A) @ [Log LogAttemptingYtdlp])
      (trace (snd (extract_transcript_from_youtube w video_url s)))"
    by (rule prefix_order.trans)
  then show ?thesis
    by (auto simp: prefix_def)
qed

text \<open>
  The test for the signal lower-cases the message first, so a message that contains
  \<open>no element found\<close> as it stands is a signal.
\<close>

lemma no_element_found_literal:
  assumes "contains ''no element found'' e"
  shows "is_no_element_found e"
proof -
  have "map lower_char ''no element found'' = ''no element found''"
    by (simp add: lower_char_def)
  moreover have "sublist (map lower_char ''no element found'') (map lower_char e)"
    using assms unfolding contains_def by (rule map_mono_sublist)
  ultimately show ?thesis
    by (simp add: is_no_element_found_def contains_def lower_def)
qed


lemma short_url_id: "extract_video_id short_url = Inr ''abc12345678''"
  by code_simp

lemma empty_xml_signal: "is_no_element_found ''no element found: line 1, column 0''"
  by code_simp

lemma timeout_no_signal: "\<not> is_no_element_found ''Connection reset by peer''"
  by code_simp

lemma empty_xml_attempts:
  "all_attempts [track_timeout, track_empty_xml, track_hindi] =
     [track_timeout] @ track_empty_xml # [track_hindi]"
  by code_simp


section \<open>The order of the stages\<close>

lemma fetch_attempts_no_extract:
  "extract_calls (snd (fetch_attempts idx n ts s)) = extract_calls s
   \<and> extract_requests (trace (snd (fetch_attempts idx n ts s))) = extract_requests (trace s)"
proof (induction ts arbitrary: idx s)
  case Nil
  show ?case by simp
next
  case (Cons a ts)
  let ?s2 = "emit (CallFetch a)
      (log_line (LogFetchingTranscript (idx + 1) n (language a) (language_code a)) s)"
  have s2: "extract_calls ?s2 = extract_calls s"
      "extract_requests (trace ?s2) = extract_requests (trace s)"
    by simp_all
  show ?case
  proof (cases "fetch a")
    case (Inl e)
    show ?thesis
    proof (cases "is_no_element_found e")
      case True
      with Inl show ?thesis by (simp add: Let_def)
    next
      case False
      with Inl have "fetch_attempts idx n (a # ts) s =
          fetch_attempts (idx + 1) n ts
            (log_line (LogTranscriptAttemptFailed (idx + 1) (take 80 e)) ?s2)"
        by (simp add: Let_def)
      moreover have "extract_calls (snd (fetch_attempts (idx + 1) n ts
            (log_line (LogTranscriptAttemptFailed (idx + 1) (take 80 e)) ?s2)))
          = extract_calls (log_line (LogTranscriptAttemptFailed (idx + 1) (take 80 e)) ?s2)
         \<and> extract_requests (trace (snd (fetch_attempts (idx + 1) n ts
            (log_line (LogTranscriptAttemptFailed (idx + 1) (take 80 e)) ?s2))))
          = extract_requests (trace (log_line (LogTranscriptAttemptFailed (idx + 1) (take 80 e)) ?s2))"
        by (rule Cons)
      ultimately show ?thesis by simp
    qed
  next
    case (Inr fetched)
    show ?thesis
    proof (cases "fetched \<noteq> [] \<and> strip (segments_text fetched) \<noteq> []")
      case True
      with Inr show ?thesis by (simp add: Let_def)
    next
      case False
      with Inr have "fetch_attempts idx n (a # ts) s = fetch_attempts (idx + 1) n ts ?s2"
        by (auto simp: Let_def)
      moreover have "extract_calls (snd (fetch_attempts (idx + 1) n ts ?s2)) = extract_calls ?s2
         \<and> extract_requests (trace (snd (fetch_attempts (idx + 1) n ts ?s2)))
          = extract_requests (trace ?s2)"
        by (rule Cons)
      ultimately show ?thesis by simp
    qed
  qed
qed

lemma try_transcript_api_no_extract:
  "extract_calls (snd (try_transcript_api w video_id s)) = extract_calls s
   \<and> extract_requests (trace (snd (try_transcript_api w video_id s))) = extract_requests (trace s)"
proof (cases "list_transcripts w video_id")
  case (Inl e)
  then show ?thesis by (simp add: try_transcript_api_def Let_def)
next
  case (Inr transcripts)
  let ?s2 = "emit (CallListTranscripts video_id) (log_line LogAttemptingTranscriptApi s)"
  from Inr have "try_transcript_api w video_id s =
      fetch_attempts 0 (length (all_attempts transcripts)) (all_attempts transcripts) ?s2"
    by (simp add: try_transcript_api_def Let_def)
  with fetch_attempts_no_extract [of 0 "length (all_attempts transcripts)" "all_attempts transcripts" ?s2]
  show ?thesis by simp
qed

lemma strip_fallback_text: "strip (fallback_text w i dstr) \<noteq> []"
proof -
  have "CHR ''V'' \<in> set (fallback_text w i dstr)"
    by (simp add: fallback_text_def)
  moreover have "\<not> is_space (CHR ''V'')"
    by (simp add: is_space_def)
  ultimately show ?thesis
    unfolding strip_empty_iff by blast
qed

lemma strip_metadata_text: "strip (metadata_text tv dv) \<noteq> []"
proof -
  have "CHR ''T'' \<in> set (metadata_text tv dv)"
    by (simp add: metadata_text_def)
  moreover have "\<not> is_space (CHR ''T'')"
    by (simp add: is_space_def)
  ultimately show ?thesis
    unfolding strip_empty_iff by blast
qed

lemma final_metadata_result:
  "fst (final_metadata w video_url s) =
     (case fst (extract_with_stable_client w video_url (log_line LogFinalAttempt s)) of
        Inl e \<Rightarrow> Inl exhausted
      | Inr i \<Rightarrow>
          (case duration_str (get_or (duration i) (IntNum 0)) of
             Inl e \<Rightarrow> Inl exhausted
           | Inr dstr \<Rightarrow> Inr (fallback_text w i dstr)))"
  by (cases "extract_with_stable_client w video_url (log_line LogFinalAttempt s)")
     (simp add: final_metadata_def strip_fallback_text split: sum.splits)


lemma captions_world_stage1: "fst (try_transcript_api world_captions ''abc12345678'' (log_line (LogStart short_url) init_state)) = Some ''namaste duniya''"
  by code_simp

lemma subtitles_world_stage1: "fst (try_transcript_api world_subtitles ''abc12345678'' (log_line (LogStart short_url) init_state)) = None"
  by code_simp

lemma subtitles_world_stage2: "fst (try_ytdlp_subtitles world_subtitles short_url
     (snd (try_transcript_api world_subtitles ''abc12345678'' (log_line (LogStart short_url) init_state)))) = Some ''hello world''"
  by code_simp

lemma metadata_world_stage1: "fst (try_transcript_api world_metadata ''abc12345678'' (log_line (LogStart short_url) init_state)) = None"
  by code_simp

lemma metadata_world_stage2: "fst (try_ytdlp_subtitles world_metadata short_url
     (snd (try_transcript_api world_metadata ''abc12345678'' (log_line (LogStart short_url) init_state)))) = None"
  by code_simp

lemma metadata_world_stage3: "fst (metadata_fallback world_metadata short_url None
     (snd (try_ytdlp_subtitles world_metadata short_url
       (snd (try_transcript_api world_metadata ''abc12345678'' (log_line (LogStart short_url) init_state))))))
     = Some (metadata_text ''Demo'' ''A demo video'')"
  by code_simp

lemma quiet_world_stage1: "fst (try_transcript_api quiet_world ''abc12345678'' (log_line (LogStart short_url) init_state)) = None"
  by code_simp

lemma quiet_world_stage2: "fst (try_ytdlp_subtitles quiet_world short_url
     (snd (try_transcript_api quiet_world ''abc12345678'' (log_line (LogStart short_url) init_state)))) = None"
  by code_simp

lemma quiet_world_stage3: "fst (metadata_fallback quiet_world short_url None
     (snd (try_ytdlp_subtitles quiet_world short_url
       (snd (try_transcript_api quiet_world ''abc12345678'' (log_line (LogStart short_url) init_state))))))
     = Some []"
  by code_simp

lemma quiet_world_stage4: "fst (extract_with_stable_client quiet_world short_url (log_line LogFinalAttempt
     (snd (metadata_fallback quiet_world short_url None
       (snd (try_ytdlp_subtitles quiet_world short_url
         (snd (try_transcript_api quiet_world ''abc12345678'' (log_line (LogStart short_url) init_state)))))))))
     = Inl ''All extraction strategies failed''"
  by code_simp

lemma bare_world_stage1:
  "fst (try_transcript_api world_bare ''abc12345678'' (log_line (LogStart short_url) init_state)) = None"
  by code_simp

lemma bare_world_stage2:
  "fst (try_ytdlp_subtitles world_bare short_url
     (snd (try_transcript_api world_bare ''abc12345678'' (log_line (LogStart short_url) init_state)))) = None"
  by code_simp

lemma bare_world_stage3:
  "fst (metadata_fallback world_bare short_url None
     (snd (try_ytdlp_subtitles world_bare short_url
       (snd (try_transcript_api world_bare ''abc12345678'' (log_line (LogStart short_url) init_state))))))
     = None"
  by code_simp

lemma bare_world_extract:
  "fst (extract_with_stable_client world_bare short_url s) = Inr info_bare"
  by (simp add: extract_with_stable_client_def strategies_def world_bare_def Let_def
      call_extract_info_def)

lemma bare_duration: "duration_str (get_or (duration info_bare) (IntNum 0)) = Inr ''2:05''"
  by code_simp

lemma float_world_stage1:
  "fst (try_transcript_api world_bare_float ''abc12345678'' (log_line (LogStart short_url) init_state)) = None"
  by code_simp

lemma float_world_stage2:
  "fst (try_ytdlp_subtitles world_bare_float short_url
     (snd (try_transcript_api world_bare_float ''abc12345678'' (log_line (LogStart short_url) init_state)))) = None"
  by code_simp

lemma float_world_stage3:
  "fst (metadata_fallback world_bare_float short_url None
     (snd (try_ytdlp_subtitles world_bare_float short_url
       (snd (try_transcript_api world_bare_float ''abc12345678'' (log_line (LogStart short_url) init_state))))))
     = None"
  by code_simp

lemma float_world_extract:
  "fst (extract_with_stable_client world_bare_float short_url s) = Inr info_bare_float"
  by (simp add: extract_with_stable_client_def strategies_def world_bare_float_def Let_def
      call_extract_info_def)

lemma float_duration:
  "duration_str (get_or (duration info_bare_float) (IntNum 0)) =
     Inl (''Unknown format code '' @ CHR 0x27 # ''d'' @ CHR 0x27 #
          '' for object of type '' @ CHR 0x27 # ''float'' @ [CHR 0x27])"
  by (simp add: duration_str_def get_or_def info_bare_float_def info_bare_def truthy_num_def)


section \<open>Permanent failures of the extractor\<close>

lemma try_strategies_permanent:
  assumes "extract_info w (extract_calls s) video_url strategy = ExtractRaises e"
    and "is_permanent e"
  shows "try_strategies w video_url idx (strategy # rest) last_error s =
     (Inl e, log_line (LogStrategyFailed strategy (take 100 e))
        (snd (call_extract_info w video_url strategy
           (log_line (LogTryingStrategy (idx + 1) (length strategies) strategy) s))))"
  using assms by (simp add: Let_def call_extract_info_def)

lemma try_strategies_calls:
  "extract_calls s \<le> extract_calls (snd (try_strategies w video_url idx strats last_error s))"
proof (induction strats arbitrary: idx last_error s)
  case Nil
  show ?case by (cases last_error) simp_all
next
  case (Cons strategy rest)
  let ?s1 = "log_line (LogTryingStrategy (idx + 1) (length strategies) strategy) s"
  obtain r s2 where c: "call_extract_info w video_url strategy ?s1 = (r, s2)"
    by (cases "call_extract_info w video_url strategy ?s1")
  then have s2: "extract_calls s2 = Suc (extract_calls s)"
    using call_extract_info_fields(4) [of w video_url strategy ?s1] by simp
  show ?case
  proof (cases r)
    case (ExtractInfo i)
    with c s2 show ?thesis by (simp add: Let_def)
  next
    case ExtractNone
    with c have "try_strategies w video_url idx (strategy # rest) last_error s =
        try_strategies w video_url (idx + 1) rest last_error s2"
      by (simp add: Let_def)
    moreover have "extract_calls s2 \<le>
        extract_calls (snd (try_strategies w video_url (idx + 1) rest last_error s2))"
      by (rule Cons)
    ultimately show ?thesis using s2 by simp
  next
    case (ExtractRaises e)
    show ?thesis
    proof (cases "is_permanent e")
      case True
      with c s2 ExtractRaises show ?thesis by (simp add: Let_def)
    next
      case False
      with c ExtractRaises have "try_strategies w video_url idx (strategy # rest) last_error s =
          try_strategies w video_url (idx + 1) rest (Some e)
            (log_line (LogStrategyFailed strategy (take 100 e)) s2)"
        by (simp add: Let_def)
      moreover have "extract_calls (log_line (LogStrategyFailed strategy (take 100 e)) s2) \<le>
          extract_calls (snd (try_strategies w video_url (idx + 1) rest (Some e)
            (log_line (LogStrategyFailed strategy (take 100 e)) s2)))"
        by (rule Cons)
      ultimately show ?thesis using s2 by simp
    qed
  qed
qed

lemma extract_with_stable_client_calls:
  "Suc (extract_calls s) \<le> extract_calls (snd (extract_with_stable_client w video_url s))"
proof -
  let ?s1 = "log_line (LogTryingStrategy (0 + 1) (length strategies) [''android'']) s"
  obtain r s2 where c: "call_extract_info w video_url [''android''] ?s1 = (r, s2)"
    by (cases "call_extract_info w video_url [''android''] ?s1")
  then have s2: "extract_calls s2 = Suc (extract_calls s)"
    using call_extract_info_fields(4) [of w video_url "[''android'']" ?s1] by simp
  have rest: "extract_calls x \<le>
      extract_calls (snd (try_strategies w video_url (0 + 1) [[''ios''], [''web'']] le x))" for x le
    by (rule try_strategies_calls)
  show ?thesis
  proof (cases r)
    case (ExtractInfo i)
    with c s2 show ?thesis
      by (simp add: extract_with_stable_client_def strategies_def Let_def)
  next
    case ExtractNone
    with c rest [of s2 None] s2 show ?thesis
      by (simp add: extract_with_stable_client_def strategies_def Let_def)
  next
    case (ExtractRaises e)
    with c rest [of "log_line (LogStrategyFailed [''android''] (take 100 e)) s2" "Some e"] s2
    show ?thesis
      by (simp add: extract_with_stable_client_def strategies_def Let_def)
  qed
qed

lemma metadata_fallback_calls:
  "Suc (extract_calls s) \<le> extract_calls (snd (metadata_fallback w video_url transcript s))"
proof -
  let ?s1 = "log_line LogNoSubtitlesAvailable s"
  obtain r s2 where x: "extract_with_stable_client w video_url ?s1 = (r, s2)"
    by (cases "extract_with_stable_client w video_url ?s1")
  have s2: "Suc (extract_calls s) \<le> extract_calls s2"
    using extract_with_stable_client_calls [of ?s1 w video_url] x by simp
  show ?thesis
  proof (cases r)
    case (Inl e)
    with x s2 show ?thesis
      by (simp add: metadata_fallback_def)
  next
    case (Inr i)
    with x s2 show ?thesis
      by (simp add: metadata_fallback_def Let_def split: option.splits)
  qed
qed

lemma final_metadata_calls:
  "extract_calls s \<le> extract_calls (snd (final_metadata w video_url s))"
proof -
  let ?s1 = "log_line LogFinalAttempt s"
  obtain r s2 where x: "extract_with_stable_client w video_url ?s1 = (r, s2)"
    by (cases "extract_with_stable_client w video_url ?s1")
  have s2: "Suc (extract_calls s) \<le> extract_calls s2"
    using extract_with_stable_client_calls [of ?s1 w video_url] x by simp
  show ?thesis
  proof (cases r)
    case (Inl e)
    with x s2 show ?thesis
      by (simp add: final_metadata_def)
  next
    case (Inr i)
    with x s2 show ?thesis
      by (simp add: final_metadata_def split: sum.splits)
  qed
qed

lemma try_ytdlp_subtitles_permanent:
  assumes "extract_info w (extract_calls s) video_url [''android''] = ExtractRaises e"
    and "is_permanent e"
  shows "fst (try_ytdlp_subtitles w video_url s) = None
     \<and> extract_calls (snd (try_ytdlp_subtitles w video_url s)) = Suc (extract_calls s)"
proof -
  let ?s2 = "snd (call_clock w (log_line LogAttemptingYtdlp s))"
  have ei: "extract_info w (extract_calls ?s2) video_url [''android''] = ExtractRaises e"
    using assms(1) by simp
  have "\<exists>s3. extract_with_stable_client w video_url ?s2 = (Inl e, s3)
      \<and> extract_calls s3 = Suc (extract_calls s)"
    using try_strategies_permanent [OF ei assms(2), of 0 "[[''ios''], [''web'']]" None]
    by (simp add: extract_with_stable_client_def strategies_def)
  then obtain s3 where "extract_with_stable_client w video_url ?s2 = (Inl e, s3)"
      "extract_calls s3 = Suc (extract_calls s)"
    by blast
  then show ?thesis
    by (simp add: try_ytdlp_subtitles_def case_prod_beta Let_def)
qed

lemma pipeline_after_two_failures:
  assumes "extract_video_id video_url = Inr vid"
    and "fst (try_transcript_api w vid (log_line (LogStart video_url) s)) = None"
    and "fst (try_ytdlp_subtitles w video_url
           (snd (try_transcript_api w vid (log_line (LogStart video_url) s)))) = None"
  shows "extract_transcript_from_youtube w video_url s =
    (let C = metadata_fallback w video_url None
               (snd (try_ytdlp_subtitles w video_url
                  (snd (try_transcript_api w vid (log_line (LogStart video_url) s)))))
     in if \<not> falsy (fst C) \<and> strip (the (fst C)) \<noteq> [] then (Inr (the (fst C)), snd C)
        else final_metadata w video_url (snd C))"
proof -
  have fA: "falsy (fst (try_transcript_api w vid (log_line (LogStart video_url) s)))"
    using assms(2) by (simp add: falsy_def)
  have fB: "falsy (fst (try_ytdlp_subtitles w video_url
           (snd (try_transcript_api w vid (log_line (LogStart video_url) s)))))"
    using assms(3) by (simp add: falsy_def)
  show ?thesis
    unfolding pipeline_unfold [OF assms(1)]
    by (simp only: Let_def fA fB if_True) (simp only: assms(3))
qed

lemma pipeline_after_two_failures_props:
  assumes "extract_video_id video_url = Inr vid"
    and "fst (try_transcript_api w vid (log_line (LogStart video_url) s)) = None"
    and "fst (try_ytdlp_subtitles w video_url
           (snd (try_transcript_api w vid (log_line (LogStart video_url) s)))) = None"
  shows "Log LogNoSubtitlesAvailable \<in> set (trace (snd (extract_transcript_from_youtube w video_url s)))"
    and "Suc (extract_calls (snd (try_ytdlp_subtitles w video_url
           (snd (try_transcript_api w vid (log_line (LogStart video_url) s))))))
         \<le> extract_calls (snd (extract_transcript_from_youtube w video_url s))"
    and "fst (extract_transcript_from_youtube w video_url s) = Inl exhausted
         \<or> (\<exists>t. fst (extract_transcript_from_youtube w video_url s) = Inr t)"
proof -
  define B where "B = try_ytdlp_subtitles w video_url
           (snd (try_transcript_api w vid (log_line (LogStart video_url) s)))"
  define C where "C = metadata_fallback w video_url None (snd B)"
  define P where "P = extract_transcript_from_youtube w video_url s"
  have P: "P = (if \<not> falsy (fst C) \<and> strip (the (fst C)) \<noteq> [] then (Inr (the (fst C)), snd C)
        else final_metadata w video_url (snd C))"
    unfolding P_def C_def B_def pipeline_after_two_failures [OF assms]
    by (simp only: Let_def)
  have tC: "prefix (trace (snd B) @ [Log LogNoSubtitlesAvailable]) (trace (snd C))"
    unfolding C_def by (rule metadata_fallback_extends)
  have cC: "Suc (extract_calls (snd B)) \<le> extract_calls (snd C)"
    unfolding C_def by (rule metadata_fallback_calls)
  have tP: "prefix (trace (snd C)) (trace (snd P))"
    unfolding P using final_metadata_extends [of "snd C" w video_url]
    by (simp add: prefix_via)
  have cP: "extract_calls (snd C) \<le> extract_calls (snd P)"
    unfolding P using final_metadata_calls [of "snd C" w video_url]
    by simp
  from tC tP have "prefix (trace (snd B) @ [Log LogNoSubtitlesAvailable]) (trace (snd P))"
    by (rule prefix_order.trans)
  then show "Log LogNoSubtitlesAvailable \<in> set (trace (snd (extract_transcript_from_youtube w video_url s)))"
    unfolding P_def by (auto simp: prefix_def)
  from cC cP show "Suc (extract_calls (snd (try_ytdlp_subtitles w video_url
           (snd (try_transcript_api w vid (log_line (LogStart video_url) s))))))
         \<le> extract_calls (snd (extract_transcript_from_youtube w video_url s))"
    unfolding P_def B_def by simp
  have "fst P = Inl exhausted \<or> (\<exists>t. fst P = Inr t)"
    unfolding P using final_metadata_result [of w video_url "snd C"]
    by (simp split: sum.splits)
  then show "fst (extract_transcript_from_youtube w video_url s) = Inl exhausted
         \<or> (\<exists>t. fst (extract_transcript_from_youtube w video_url s) = Inr t)"
    unfolding P_def .
qed

lemma extract_with_stable_client_permanent:
  assumes "extract_info w (extract_calls s) video_url [''android''] = ExtractRaises e"
    and "is_permanent e"
  shows "fst (extract_with_stable_client w video_url s) = Inl e"
  using try_strategies_permanent [OF assms, of 0 "[[''ios''], [''web'']]" None]
  by (simp add: extract_with_stable_client_def strategies_def)

lemma metadata_fallback_failure:
  assumes "fst (extract_with_stable_client w video_url (log_line LogNoSubtitlesAvailable s)) = Inl e"
  shows "fst (metadata_fallback w video_url transcript s) = Some []"
  using assms
  by (cases "extract_with_stable_client w video_url (log_line LogNoSubtitlesAvailable s)")
     (simp add: metadata_fallback_def)

lemma private_error_permanent: "is_permanent private_error"
  by code_simp

lemma private_caption:
  "fst (try_transcript_api world_private ''abc12345678'' (log_line (LogStart short_url) init_state)) = None"
  by code_simp

lemma private_extract: "extract_info world_private n short_url [''android''] = ExtractRaises private_error"
  by (simp add: world_private_def)

lemma private_subtitles:
  "fst (try_ytdlp_subtitles world_private short_url
     (snd (try_transcript_api world_private ''abc12345678'' (log_line (LogStart short_url) init_state))))
   = None"
  using try_ytdlp_subtitles_permanent [OF private_extract private_error_permanent] by simp

lemma private_run:
  "fst (extract_transcript_from_youtube world_private short_url init_state) = Inl exhausted"
proof -
  let ?B = "try_ytdlp_subtitles world_private short_url
     (snd (try_transcript_api world_private ''abc12345678'' (log_line (LogStart short_url) init_state)))"
  let ?C = "metadata_fallback world_private short_url None (snd ?B)"
  have c: "fst ?C = Some []"
    by (rule metadata_fallback_failure)
       (rule extract_with_stable_client_permanent [OF private_extract private_error_permanent])
  have f: "fst (final_metadata world_private short_url (snd ?C)) = Inl exhausted"
    unfolding final_metadata_result
    using extract_with_stable_client_permanent [OF private_extract private_error_permanent,
        of "log_line LogFinalAttempt (snd ?C)"]
    by simp
  show ?thesis
    unfolding pipeline_after_two_failures [OF short_url_id private_caption private_subtitles] Let_def
    using c f by (simp add: falsy_def)
qed

lemma try_strategies_permanent_at:
  assumes "k < length strats"
    and "\<forall>j<k. passes_on (extract_info w (extract_calls s + j) video_url (strats ! j))"
    and "extract_info w (extract_calls s + k) video_url (strats ! k) = ExtractRaises e"
    and "is_permanent e"
  shows "fst (try_strategies w video_url idx strats last_error s) = Inl e
     \<and> extract_calls (snd (try_strategies w video_url idx strats last_error s)) =
         extract_calls s + k + 1"
  using assms
proof (induction strats arbitrary: k idx last_error s)
  case Nil
  then show ?case by simp
next
  case (Cons strategy rest)
  let ?s1 = "log_line (LogTryingStrategy (idx + 1) (length strategies) strategy) s"
  show ?case
  proof (cases k)
    case 0
    with Cons.prems have "extract_info w (extract_calls s) video_url strategy = ExtractRaises e"
      by simp
    from try_strategies_permanent [OF this Cons.prems(4), of idx rest last_error] 0
    show ?thesis by simp
  next
    case (Suc k')
    from Cons.prems(2) Suc have head: "passes_on (extract_info w (extract_calls s) video_url strategy)"
      by (metis add.right_neutral nth_Cons_0 zero_less_Suc)
    have k': "k' < length rest"
      using Cons.prems(1) Suc by simp
    have ih: "fst (try_strategies w video_url (idx + 1) rest le x) = Inl e
       \<and> extract_calls (snd (try_strategies w video_url (idx + 1) rest le x)) =
           extract_calls x + k' + 1"
      if x: "extract_calls x = Suc (extract_calls s)" for x le
    proof (rule Cons.IH [OF k' _ _ Cons.prems(4)])
      show "\<forall>j<k'. passes_on (extract_info w (extract_calls x + j) video_url (rest ! j))"
      proof (intro allI impI)
        fix j assume "j < k'"
        then have "Suc j < k"
          using Suc by simp
        with Cons.prems(2) have "passes_on (extract_info w (extract_calls s + Suc j) video_url
            ((strategy # rest) ! Suc j))"
          by blast
        then show "passes_on (extract_info w (extract_calls x + j) video_url (rest ! j))"
          using x by simp
      qed
      show "extract_info w (extract_calls x + k') video_url (rest ! k') = ExtractRaises e"
        using Cons.prems(3) Suc x by simp
    qed
    show ?thesis
    proof (cases "extract_info w (extract_calls s) video_url strategy")
      case (ExtractInfo i)
      with head show ?thesis by (simp add: passes_on_def)
    next
      case ExtractNone
      let ?s2 = "snd (call_extract_info w video_url strategy ?s1)"
      have "try_strategies w video_url idx (strategy # rest) last_error s =
          try_strategies w video_url (idx + 1) rest last_error ?s2"
        using ExtractNone by (simp add: Let_def case_prod_beta)
      moreover have "extract_calls ?s2 = Suc (extract_calls s)"
        by simp
      ultimately show ?thesis
        using ih [of ?s2 last_error] Suc by simp
    next
      case (ExtractRaises e')
      with head have np: "\<not> is_permanent e'"
        by (simp add: passes_on_def)
      let ?s3 = "log_line (LogStrategyFailed strategy (take 100 e'))
          (snd (call_extract_info w video_url strategy ?s1))"
      have "try_strategies w video_url idx (strategy # rest) last_error s =
          try_strategies w video_url (idx + 1) rest (Some e') ?s3"
        using ExtractRaises np by (simp add: Let_def case_prod_beta)
      moreover have "extract_calls ?s3 = Suc (extract_calls s)"
        by simp
      ultimately show ?thesis
        using ih [of ?s3 "Some e'"] Suc by simp
    qed
  qed
qed

lemma try_ytdlp_subtitles_failure:
  assumes "fst (extract_with_stable_client w video_url
             (snd (call_clock w (log_line LogAttemptingYtdlp s)))) = Inl e"
  shows "fst (try_ytdlp_subtitles w video_url s) = None"
  using assms
  by (cases "extract_with_stable_client w video_url (snd (call_clock w (log_line LogAttemptingYtdlp s)))")
     (simp add: try_ytdlp_subtitles_def case_prod_beta Let_def)

lemma pipeline_result_shape:
  assumes "extract_video_id video_url = Inr vid"
  shows "fst (extract_transcript_from_youtube w video_url s) = Inl exhausted
     \<or> (\<exists>t. fst (extract_transcript_from_youtube w video_url s) = Inr t)"
proof -
  have f: "fst (final_metadata w video_url x) = Inl exhausted
      \<or> (\<exists>t. fst (final_metadata w video_url x) = Inr t)" for x
    unfolding final_metadata_result by (simp split: sum.splits)
  show ?thesis
    unfolding pipeline_unfold [OF assms] Let_def using f by simp
qed

lemma pipeline_reaches_final:
  assumes "extract_video_id video_url = Inr vid"
    and "fst (try_transcript_api w vid (log_line (LogStart video_url) s)) = None"
    and "fst (try_ytdlp_subtitles w video_url
           (snd (try_transcript_api w vid (log_line (LogStart video_url) s)))) = None"
    and "falsy (fst (metadata_fallback w video_url None
           (snd (try_ytdlp_subtitles w video_url
              (snd (try_transcript_api w vid (log_line (LogStart video_url) s)))))))
         \<or> strip (the (fst (metadata_fallback w video_url None
           (snd (try_ytdlp_subtitles w video_url
              (snd (try_transcript_api w vid (log_line (LogStart video_url) s)))))))) = []"
  shows "extract_transcript_from_youtube w video_url s =
     final_metadata w video_url (snd (metadata_fallback w video_url None
           (snd (try_ytdlp_subtitles w video_url
              (snd (try_transcript_api w vid (log_line (LogStart video_url) s)))))))"
  unfolding pipeline_after_two_failures [OF assms(1,2,3)] Let_def
  using assms(4) by auto

text \<open>
  C2 (as amended). A permanent failure of \<open>extract_info\<close> (a message that contains, in
  lower case, \<open>private video\<close> or \<open>video unavailable\<close>) leaves the extractor at once,
  at whichever client profile it occurs: when the profiles in front of profile \<open>k\<close> have
  passed on and profile \<open>k\<close> raises it, the extractor fails with it after \<open>k + 1\<close> calls,
  the remaining profiles untried (first conjunct). It does not leave the pipeline, in
  whichever extractor invocation it occurs. A failure of the extractor in the
  direct-subtitles stage is caught and the stage yields \<open>None\<close> (second conjunct); the
  pipeline of a URL with a video id ends with a text or with the total-exhaustion error,
  never with the failure of the extractor (third conjunct). After a failure in the
  direct-subtitles stage the metadata fallback is attempted and invokes the extractor
  again; after a failure in the metadata fallback the final metadata stage is attempted;
  after a failure in the final stage the pipeline fails with the total-exhaustion error
  (fourth to sixth conjunct).
\<close>

theorem permanent_failure_is_caught:
  "(k < length strategies
      \<and> (\<forall>j<k. passes_on (extract_info w (extract_calls s + j) video_url (strategies ! j)))
      \<and> extract_info w (extract_calls s + k) video_url (strategies ! k) = ExtractRaises e
      \<and> is_permanent e \<longrightarrow>
      fst (extract_with_stable_client w video_url s) = Inl e
      \<and> extract_calls (snd (extract_with_stable_client w video_url s)) = extract_calls s + k + 1)
   \<and> (fst (extract_with_stable_client w video_url
            (snd (call_clock w (log_line LogAttemptingYtdlp s)))) = Inl e \<longrightarrow>
      fst (try_ytdlp_subtitles w video_url s) = None)
   \<and> (extract_video_id video_url = Inr vid \<longrightarrow>
      fst (extract_transcript_from_youtube w video_url s0) = Inl exhausted
      \<or> (\<exists>t. fst (extract_transcript_from_youtube w video_url s0) = Inr t))
   \<and> (let A = try_transcript_api w vid (log_line (LogStart video_url) s0);
           B = try_ytdlp_subtitles w video_url (snd A);
           C = metadata_fallback w video_url None (snd B);
           result = extract_transcript_from_youtube w video_url s0
       in (extract_video_id video_url = Inr vid \<and> fst A = None
            \<and> fst (extract_with_stable_client w video_url
                  (snd (call_clock w (log_line LogAttemptingYtdlp (snd A))))) = Inl e \<longrightarrow>
            Log LogNoSubtitlesAvailable \<in> set (trace (snd result))
            \<and> Suc (extract_calls (snd B)) \<le> extract_calls (snd result))
        \<and> (extract_video_id video_url = Inr vid \<and> fst A = None \<and> fst B = None
            \<and> fst (extract_with_stable_client w video_url
                  (log_line LogNoSubtitlesAvailable (snd B))) = Inl e \<longrightarrow>
            result = final_metadata w video_url (snd C)
            \<and> Log LogFinalAttempt \<in> set (trace (snd result)))
        \<and> (extract_video_id video_url = Inr vid \<and> fst A = None \<and> fst B = None
            \<and> (falsy (fst C) \<or> strip (the (fst C)) = [])
            \<and> fst (extract_with_stable_client w video_url
                  (log_line LogFinalAttempt (snd C))) = Inl e \<longrightarrow>
            fst result = Inl exhausted))"
proof -
  define A where "A = try_transcript_api w vid (log_line (LogStart video_url) s0)"
  define B where "B = try_ytdlp_subtitles w video_url (snd A)"
  define C where "C = metadata_fallback w video_url None (snd B)"
  define result where "result = extract_transcript_from_youtube w video_url s0"
  have 1: "k < length strategies
      \<and> (\<forall>j<k. passes_on (extract_info w (extract_calls s + j) video_url (strategies ! j)))
      \<and> extract_info w (extract_calls s + k) video_url (strategies ! k) = ExtractRaises e
      \<and> is_permanent e \<longrightarrow>
      fst (extract_with_stable_client w video_url s) = Inl e
      \<and> extract_calls (snd (extract_with_stable_client w video_url s)) = extract_calls s + k + 1"
    unfolding extract_with_stable_client_def
    using try_strategies_permanent_at [of k strategies w s video_url e 0 None] by blast
  have 2: "fst (extract_with_stable_client w video_url
            (snd (call_clock w (log_line LogAttemptingYtdlp s)))) = Inl e \<longrightarrow>
      fst (try_ytdlp_subtitles w video_url s) = None"
    using try_ytdlp_subtitles_failure [of w video_url s e] by blast
  have 3: "extract_video_id video_url = Inr vid \<longrightarrow>
      fst result = Inl exhausted \<or> (\<exists>t. fst result = Inr t)"
    unfolding result_def using pipeline_result_shape [of video_url vid w s0] by blast
  have 4: "extract_video_id video_url = Inr vid \<and> fst A = None
            \<and> fst (extract_with_stable_client w video_url
                  (snd (call_clock w (log_line LogAttemptingYtdlp (snd A))))) = Inl e \<longrightarrow>
            Log LogNoSubtitlesAvailable \<in> set (trace (snd result))
            \<and> Suc (extract_calls (snd B)) \<le> extract_calls (snd result)"
  proof
    assume h: "extract_video_id video_url = Inr vid \<and> fst A = None
            \<and> fst (extract_with_stable_client w video_url
                  (snd (call_clock w (log_line LogAttemptingYtdlp (snd A))))) = Inl e"
    then have b: "fst B = None"
      unfolding B_def using try_ytdlp_subtitles_failure [of w video_url "snd A" e] by blast
    from h have v: "extract_video_id video_url = Inr vid" and a: "fst A = None"
      by simp_all
    show "Log LogNoSubtitlesAvailable \<in> set (trace (snd result))
            \<and> Suc (extract_calls (snd B)) \<le> extract_calls (snd result)"
      using pipeline_after_two_failures_props(1,2) [OF v a [unfolded A_def] b [unfolded B_def A_def]]
      unfolding result_def B_def A_def by blast
  qed
  have 5: "extract_video_id video_url = Inr vid \<and> fst A = None \<and> fst B = None
            \<and> fst (extract_with_stable_client w video_url
                  (log_line LogNoSubtitlesAvailable (snd B))) = Inl e \<longrightarrow>
            result = final_metadata w video_url (snd C)
            \<and> Log LogFinalAttempt \<in> set (trace (snd result))"
  proof
    assume h: "extract_video_id video_url = Inr vid \<and> fst A = None \<and> fst B = None
            \<and> fst (extract_with_stable_client w video_url
                  (log_line LogNoSubtitlesAvailable (snd B))) = Inl e"
    then have "fst C = Some []"
      unfolding C_def using metadata_fallback_failure [of w video_url "snd B" e None] by blast
    then have c: "falsy (fst C) \<or> strip (the (fst C)) = []"
      by (simp add: falsy_def)
    from h have v: "extract_video_id video_url = Inr vid" and a: "fst A = None" and b: "fst B = None"
      by simp_all
    have r: "result = final_metadata w video_url (snd C)"
      using pipeline_reaches_final [OF v a [unfolded A_def] b [unfolded B_def A_def]
          c [unfolded C_def B_def A_def]]
      unfolding result_def C_def B_def A_def .
    have "prefix (trace (snd C) @ [Log LogFinalAttempt]) (trace (snd result))"
      unfolding r by (rule final_metadata_extends)
    then have "Log LogFinalAttempt \<in> set (trace (snd result))"
      by (auto simp: prefix_def)
    with r show "result = final_metadata w video_url (snd C)
            \<and> Log LogFinalAttempt \<in> set (trace (snd result))"
      by simp
  qed
  have 6: "extract_video_id video_url = Inr vid \<and> fst A = None \<and> fst B = None
            \<and> (falsy (fst C) \<or> strip (the (fst C)) = [])
            \<and> fst (extract_with_stable_client w video_url
                  (log_line LogFinalAttempt (snd C))) = Inl e \<longrightarrow>
            fst result = Inl exhausted"
  proof
    assume h: "extract_video_id video_url = Inr vid \<and> fst A = None \<and> fst B = None
            \<and> (falsy (fst C) \<or> strip (the (fst C)) = [])
            \<and> fst (extract_with_stable_client w video_url
                  (log_line LogFinalAttempt (snd C))) = Inl e"
    then have v: "extract_video_id video_url = Inr vid" and a: "fst A = None" and b: "fst B = None"
      and c: "falsy (fst C) \<or> strip (the (fst C)) = []"
      and x: "fst (extract_with_stable_client w video_url (log_line LogFinalAttempt (snd C))) = Inl e"
      by simp_all
    have r: "result = final_metadata w video_url (snd C)"
      using pipeline_reaches_final [OF v a [unfolded A_def] b [unfolded B_def A_def]
          c [unfolded C_def B_def A_def]]
      unfolding result_def C_def B_def A_def .
    show "fst result = Inl exhausted"
      unfolding r final_metadata_result x by simp
  qed
  from 1 2 3 4 5 6 show ?thesis
    unfolding Let_def A_def [symmetric]
    unfolding B_def [symmetric]
    unfolding C_def [symmetric] result_def [symmetric]
    by blast
qed

lemma ios_private_extract:
  "fst (extract_with_stable_client world_ios_private short_url s) = Inl private_error"
proof -
  have "1 < length strategies"
    by (simp add: strategies_def)
  moreover have "\<forall>j<1. passes_on (extract_info world_ios_private (extract_calls s + j) short_url
      (strategies ! j))"
    by (simp add: world_ios_private_def strategies_def passes_on_def)
  moreover have "extract_info world_ios_private (extract_calls s + 1) short_url (strategies ! 1)
      = ExtractRaises private_error"
    by (simp add: world_ios_private_def strategies_def)
  ultimately show ?thesis
    unfolding extract_with_stable_client_def
    using try_strategies_permanent_at [of 1 strategies world_ios_private s short_url private_error
        0 None] private_error_permanent
    by blast
qed

lemma ios_private_caption:
  "fst (try_transcript_api world_ios_private ''abc12345678'' (log_line (LogStart short_url) init_state))
     = None"
  by code_simp

theorem permanent_failure_is_caught_witness:
  "fst (extract_with_stable_client world_ios_private short_url init_state) = Inl private_error
   \<and> extract_calls (snd (extract_with_stable_client world_ios_private short_url init_state)) = 2
   \<and> fst (try_ytdlp_subtitles world_ios_private short_url init_state) = None
   \<and> Log LogNoSubtitlesAvailable \<in>
        set (trace (snd (extract_transcript_from_youtube world_ios_private short_url init_state)))
   \<and> Log LogFinalAttempt \<in>
        set (trace (snd (extract_transcript_from_youtube world_ios_private short_url init_state)))
   \<and> fst (extract_transcript_from_youtube world_ios_private short_url init_state) = Inl exhausted"
proof -
  let ?A = "try_transcript_api world_ios_private ''abc12345678'' (log_line (LogStart short_url) init_state)"
  let ?B = "try_ytdlp_subtitles world_ios_private short_url (snd ?A)"
  let ?C = "metadata_fallback world_ios_private short_url None (snd ?B)"
  let ?P = "extract_transcript_from_youtube world_ios_private short_url init_state"
  note inst = permanent_failure_is_caught [where w = world_ios_private and video_url = short_url
      and s = init_state and s0 = init_state and k = 1 and e = private_error
      and vid = "''abc12345678''", unfolded Let_def]
  have k: "1 < length strategies"
    by (simp add: strategies_def)
  have p: "\<forall>j<1. passes_on (extract_info world_ios_private (extract_calls init_state + j) short_url
      (strategies ! j))"
    by (simp add: world_ios_private_def strategies_def passes_on_def)
  have r: "extract_info world_ios_private (extract_calls init_state + 1) short_url (strategies ! 1)
      = ExtractRaises private_error"
    by (simp add: world_ios_private_def strategies_def)
  from inst k p r private_error_permanent
  have 1: "fst (extract_with_stable_client world_ios_private short_url init_state) = Inl private_error
      \<and> extract_calls (snd (extract_with_stable_client world_ios_private short_url init_state))
          = extract_calls init_state + 1 + 1"
    by blast
  from inst ios_private_extract
  have 2: "fst (try_ytdlp_subtitles world_ios_private short_url init_state) = None"
    by blast
  have b: "fst ?B = None"
    using ios_private_extract by (rule try_ytdlp_subtitles_failure)
  have c: "fst ?C = Some []"
    using ios_private_extract by (rule metadata_fallback_failure)
  then have c': "falsy (fst ?C) \<or> strip (the (fst ?C)) = []"
    by (simp add: falsy_def)
  from inst short_url_id ios_private_caption ios_private_extract
  have 4: "Log LogNoSubtitlesAvailable \<in> set (trace (snd ?P))"
    by blast
  from inst short_url_id ios_private_caption b ios_private_extract
  have 5: "Log LogFinalAttempt \<in> set (trace (snd ?P))"
    by blast
  from inst short_url_id ios_private_caption b c' ios_private_extract
  have 6: "fst ?P = Inl exhausted"
    by blast
  have c0: "extract_calls init_state + 1 + 1 = 2"
    by (simp add: init_state_def)
  from 1 2 4 5 6 show ?thesis
    unfolding c0 by blast
qed

text \<open>
  The claim as stated fails: with no captions and an extractor that always raises
  \<open>Private video\<close>, the pipeline does not end with that failure but with the
  total-exhaustion error, after the metadata fallback has been attempted and the extractor
  has been invoked again.
\<close>

theorem permanent_failure_counterexample:
  "is_permanent private_error
   \<and> extract_info world_private 0 short_url [''android''] = ExtractRaises private_error
   \<and> fst (extract_transcript_from_youtube world_private short_url init_state) \<noteq>
       Inl (PyException private_error)
   \<and> fst (extract_transcript_from_youtube world_private short_url init_state) = Inl exhausted
   \<and> Log LogNoSubtitlesAvailable \<in>
        set (trace (snd (extract_transcript_from_youtube world_private short_url init_state)))
   \<and> 2 \<le> extract_calls (snd (extract_transcript_from_youtube world_private short_url init_state))"
proof -
  have m: "Log LogNoSubtitlesAvailable \<in>
        set (trace (snd (extract_transcript_from_youtube world_private short_url init_state)))"
    using short_url_id private_caption private_subtitles
    by (rule pipeline_after_two_failures_props(1))
  have "Suc (extract_calls (snd (try_ytdlp_subtitles world_private short_url
     (snd (try_transcript_api world_private ''abc12345678'' (log_line (LogStart short_url) init_state))))))
     \<le> extract_calls (snd (extract_transcript_from_youtube world_private short_url init_state))"
    using short_url_id private_caption private_subtitles
    by (rule pipeline_after_two_failures_props(2))
  moreover have "extract_calls (snd (try_ytdlp_subtitles world_private short_url
     (snd (try_transcript_api world_private ''abc12345678'' (log_line (LogStart short_url) init_state)))))
     = Suc (extract_calls (snd (try_transcript_api world_private ''abc12345678''
          (log_line (LogStart short_url) init_state))))"
    using try_ytdlp_subtitles_permanent [OF private_extract private_error_permanent] by simp
  ultimately have n: "2 \<le> extract_calls (snd (extract_transcript_from_youtube world_private
      short_url init_state))"
    by simp
  have d: "Inl exhausted \<noteq> (Inl (PyException private_error) :: py_exception + string)"
    by (simp add: exhausted_def)
  from m n d private_extract [of 0] private_error_permanent private_run show ?thesis
    by simp
qed

section \<open>The metadata-only flag of the endpoint\<close>

lemma sublist_skip_char:
  assumes "c \<notin> set p"
  shows "sublist p (xs @ c # ys) \<longleftrightarrow> sublist p xs \<or> sublist p ys"
proof
  assume "sublist p (xs @ c # ys)"
  then consider "sublist p xs" | "sublist p (c # ys)"
    | xs1 xs2 where "p = xs1 @ xs2" "suffix xs1 xs" "prefix xs2 (c # ys)"
    unfolding sublist_append by blast
  then show "sublist p xs \<or> sublist p ys"
  proof cases
    case 1
    then show ?thesis by simp
  next
    case 2
    then have "prefix p (c # ys) \<or> sublist p ys"
      by (simp add: sublist_Cons_right)
    moreover have "prefix p (c # ys) \<Longrightarrow> p = []"
      using assms by (cases p) auto
    ultimately show ?thesis by auto
  next
    case 3
    have "xs2 = []"
      using 3(1,3) assms by (cases xs2) auto
    with 3 show ?thesis by auto
  qed
next
  assume "sublist p xs \<or> sublist p ys"
  then show "sublist p (xs @ c # ys)"
  proof
    assume "sublist p xs"
    then show ?thesis by (auto simp: sublist_append)
  next
    assume "sublist p ys"
    then have "sublist p (c # ys)" by (simp add: sublist_Cons_right)
    then show ?thesis by (auto simp: sublist_append)
  qed
qed

lemma sublist_skip_prefix:
  assumes "a \<notin> set xs"
  shows "sublist (a # p) (xs @ ys) \<longleftrightarrow> sublist (a # p) ys"
  using assms
proof (induction xs)
  case Nil
  show ?case by simp
next
  case (Cons x xs)
  then have "\<not> prefix (a # p) (x # xs @ ys)" by auto
  with Cons show ?case by (simp add: sublist_Cons_right)
qed

lemma phrase_facts:
  "disclaimer_phrase = CHR ''N'' # tl disclaimer_phrase"
  "CHR 0x0A \<notin> set disclaimer_phrase"
  "CHR ''N'' \<notin> set ''Title: ''"
  "\<not> sublist disclaimer_phrase ''Description:''"
  "\<not> sublist disclaimer_phrase []"
  by (simp_all add: disclaimer_phrase_def sublist_code)

lemma is_metadata_only_phrase: "is_metadata_only transcript = contains disclaimer_phrase transcript"
  by (simp add: is_metadata_only_def disclaimer_phrase_def)

lemma metadata_text_flag:
  "is_metadata_only (metadata_text tv dv) \<longleftrightarrow>
     contains disclaimer_phrase tv \<or> contains disclaimer_phrase dv"
proof -
  have shape: "metadata_text tv dv =
      (''Title: '' @ tv) @ CHR 0x0A # ([] @ CHR 0x0A # (''Description:'' @ CHR 0x0A # dv))"
    by (simp add: metadata_text_def)
  have "sublist disclaimer_phrase (metadata_text tv dv) \<longleftrightarrow>
      sublist disclaimer_phrase (''Title: '' @ tv) \<or> sublist disclaimer_phrase dv"
    unfolding shape
    by (simp only: sublist_skip_char [OF phrase_facts(2)] phrase_facts(4,5) simp_thms)
  moreover have "sublist disclaimer_phrase (''Title: '' @ tv) \<longleftrightarrow> sublist disclaimer_phrase tv"
    using sublist_skip_prefix [OF phrase_facts(3), of "tl disclaimer_phrase" tv] phrase_facts(1)
    by simp
  ultimately show ?thesis
    by (simp add: is_metadata_only_phrase contains_def)
qed

lemma summarize_youtube_response:
  assumes "fst (extract_transcript_from_youtube w video_url
             (log_line (LogProcessingYoutube (take 50 video_url) summary_type) s)) = Inr transcript"
    and "strip transcript \<noteq> []"
  shows "\<exists>r. fst (summarize_youtube w video_url summary_type bullet_count s) = Inr r
     \<and> resp_metadata_only r = is_metadata_only transcript
     \<and> resp_warning r = (if is_metadata_only transcript then Some warning_text else None)"
  using assms
  by (simp add: summarize_youtube_def Let_def case_prod_beta warning_text_def)

lemma summarize_youtube_cases:
  "case fst (summarize_youtube w video_url summary_type bullet_count s) of
     Inl err \<Rightarrow> True
   | Inr r \<Rightarrow>
       (case fst (extract_transcript_from_youtube w video_url
                (log_line (LogProcessingYoutube (take 50 video_url) summary_type) s)) of
          Inl err \<Rightarrow> False
        | Inr transcript \<Rightarrow>
            resp_metadata_only r = contains ''Note: Transcript/subtitles were not available'' transcript
            \<and> resp_warning r = (if resp_metadata_only r then Some warning_text else None))"
proof (cases "fst (extract_transcript_from_youtube w video_url
                (log_line (LogProcessingYoutube (take 50 video_url) summary_type) s))")
  case (Inl err)
  then show ?thesis
    by (cases err) (simp_all add: summarize_youtube_def Let_def case_prod_beta)
next
  case (Inr transcript)
  show ?thesis
  proof (cases "strip transcript = []")
    case True
    with Inr show ?thesis
      by (simp add: summarize_youtube_def Let_def case_prod_beta)
  next
    case False
    from summarize_youtube_response [OF Inr False, of bullet_count] obtain r where
      "fst (summarize_youtube w video_url summary_type bullet_count s) = Inr r"
      "resp_metadata_only r = is_metadata_only transcript"
      "resp_warning r = (if is_metadata_only transcript then Some warning_text else None)"
      by blast
    with Inr show ?thesis
      by (simp add: is_metadata_only_def)
  qed
qed

text \<open>
  C10 (as amended). In every success response of the YouTube endpoint, \<open>metadata_only\<close> is
  the result of the substring test for \<open>Note: Transcript/subtitles were not available\<close> on
  the transcript the pipeline returned, and \<open>warning\<close> is set exactly when the flag is
  (first conjunct). On the two-field text \<open>Title: ... Description: ...\<close> the test succeeds
  exactly when the title or the description contains that phrase (second conjunct). So a
  request answered with the two-field text of a title and a description that do not contain
  the phrase gets \<open>metadata_only = False\<close> and \<open>warning = None\<close> (third conjunct).
\<close>

theorem metadata_only_flag:
  "(case fst (summarize_youtube w video_url summary_type bullet_count s) of
      Inl err \<Rightarrow> True
    | Inr r \<Rightarrow>
       (case fst (extract_transcript_from_youtube w video_url
                (log_line (LogProcessingYoutube (take 50 video_url) summary_type) s)) of
          Inl err \<Rightarrow> False
        | Inr transcript \<Rightarrow>
            resp_metadata_only r = contains ''Note: Transcript/subtitles were not available'' transcript
            \<and> resp_warning r = (if resp_metadata_only r then Some warning_text else None)))
   \<and> (is_metadata_only (metadata_text tv dv) \<longleftrightarrow>
        contains ''Note: Transcript/subtitles were not available'' tv
        \<or> contains ''Note: Transcript/subtitles were not available'' dv)
   \<and> (fst (extract_transcript_from_youtube w video_url
          (log_line (LogProcessingYoutube (take 50 video_url) summary_type) s))
        = Inr (metadata_text tv dv)
      \<and> \<not> contains ''Note: Transcript/subtitles were not available'' tv
      \<and> \<not> contains ''Note: Transcript/subtitles were not available'' dv \<longrightarrow>
      map_sum id resp_metadata_only (fst (summarize_youtube w video_url summary_type bullet_count s))
        = Inr False
      \<and> map_sum id resp_warning (fst (summarize_youtube w video_url summary_type bullet_count s))
        = Inr None)"
proof (intro conjI impI)
  show "case fst (summarize_youtube w video_url summary_type bullet_count s) of
      Inl err \<Rightarrow> True
    | Inr r \<Rightarrow>
       (case fst (extract_transcript_from_youtube w video_url
                (log_line (LogProcessingYoutube (take 50 video_url) summary_type) s)) of
          Inl err \<Rightarrow> False
        | Inr transcript \<Rightarrow>
            resp_metadata_only r = contains ''Note: Transcript/subtitles were not available'' transcript
            \<and> resp_warning r = (if resp_metadata_only r then Some warning_text else None))"
    by (rule summarize_youtube_cases)
next
  show "is_metadata_only (metadata_text tv dv) \<longleftrightarrow>
        contains ''Note: Transcript/subtitles were not available'' tv
        \<or> contains ''Note: Transcript/subtitles were not available'' dv"
    using metadata_text_flag [of tv dv] by (simp add: disclaimer_phrase_def)
next
  assume h: "fst (extract_transcript_from_youtube w video_url
          (log_line (LogProcessingYoutube (take 50 video_url) summary_type) s))
        = Inr (metadata_text tv dv)
      \<and> \<not> contains ''Note: Transcript/subtitles were not available'' tv
      \<and> \<not> contains ''Note: Transcript/subtitles were not available'' dv"
  then have no: "\<not> is_metadata_only (metadata_text tv dv)"
    using metadata_text_flag [of tv dv] by (simp add: disclaimer_phrase_def)
  from h have r: "fst (extract_transcript_from_youtube w video_url
          (log_line (LogProcessingYoutube (take 50 video_url) summary_type) s))
        = Inr (metadata_text tv dv)"
    by simp
  from summarize_youtube_response [OF r strip_metadata_text, of bullet_count] no
  obtain r' where "fst (summarize_youtube w video_url summary_type bullet_count s) = Inr r'"
      "resp_metadata_only r' = False" "resp_warning r' = None"
    by auto
  then show "map_sum id resp_metadata_only
        (fst (summarize_youtube w video_url summary_type bullet_count s)) = Inr False"
    and "map_sum id resp_warning
        (fst (summarize_youtube w video_url summary_type bullet_count s)) = Inr None"
    by simp_all
qed

lemma metadata_request_stage1: "fst (try_transcript_api world_metadata ''abc12345678'' (log_line (LogStart short_url) youtube_start)) = None"
  by code_simp

lemma metadata_request_stage2: "fst (try_ytdlp_subtitles world_metadata short_url
     (snd (try_transcript_api world_metadata ''abc12345678'' (log_line (LogStart short_url) youtube_start)))) = None"
  by code_simp

lemma metadata_request_stage3: "fst (metadata_fallback world_metadata short_url None
     (snd (try_ytdlp_subtitles world_metadata short_url
       (snd (try_transcript_api world_metadata ''abc12345678'' (log_line (LogStart short_url) youtube_start))))))
     = Some (metadata_text ''Demo'' ''A demo video'')"
  by code_simp

lemma noted_request_stage1: "fst (try_transcript_api world_noted ''abc12345678'' (log_line (LogStart short_url) youtube_start)) = None"
  by code_simp

lemma noted_request_stage2: "fst (try_ytdlp_subtitles world_noted short_url
     (snd (try_transcript_api world_noted ''abc12345678'' (log_line (LogStart short_url) youtube_start)))) = None"
  by code_simp

lemma noted_request_stage3: "fst (metadata_fallback world_noted short_url None
     (snd (try_ytdlp_subtitles world_noted short_url
       (snd (try_transcript_api world_noted ''abc12345678'' (log_line (LogStart short_url) youtube_start))))))
     = Some (metadata_text ''Note: Transcript/subtitles were not available'' ''A demo video'')"
  by code_simp

lemma two_field_answer:
  assumes "fst (try_transcript_api w ''abc12345678'' (log_line (LogStart short_url) s)) = None"
    and "fst (try_ytdlp_subtitles w short_url
           (snd (try_transcript_api w ''abc12345678'' (log_line (LogStart short_url) s)))) = None"
    and "fst (metadata_fallback w short_url None
           (snd (try_ytdlp_subtitles w short_url
              (snd (try_transcript_api w ''abc12345678'' (log_line (LogStart short_url) s))))))
         = Some (metadata_text tv dv)"
  shows "fst (extract_transcript_from_youtube w short_url s) = Inr (metadata_text tv dv)"
proof -
  have "\<not> falsy (Some (metadata_text tv dv))"
    by (simp add: falsy_def metadata_text_def)
  then show ?thesis
    unfolding pipeline_after_two_failures [OF short_url_id assms(1,2)] Let_def assms(3)
    using strip_metadata_text [of tv dv] by simp
qed

lemma demo_clean:
  "\<not> contains ''Note: Transcript/subtitles were not available'' ''Demo''"
  "\<not> contains ''Note: Transcript/subtitles were not available'' ''A demo video''"
  by code_simp+

theorem metadata_only_flag_witness:
  "fst (extract_transcript_from_youtube world_metadata short_url youtube_start)
     = Inr (metadata_text ''Demo'' ''A demo video'')
   \<and> map_sum id resp_metadata_only (fst (summarize_youtube world_metadata short_url ''short'' None init_state))
       = Inr False
   \<and> map_sum id resp_warning (fst (summarize_youtube world_metadata short_url ''short'' None init_state))
       = Inr None"
proof -
  have p: "fst (extract_transcript_from_youtube world_metadata short_url
      (log_line (LogProcessingYoutube (take 50 short_url) ''short'') init_state))
     = Inr (metadata_text ''Demo'' ''A demo video'')"
    using two_field_answer [OF metadata_request_stage1 metadata_request_stage2 metadata_request_stage3] by (simp add: youtube_start_def)
  from metadata_only_flag [where w = world_metadata and video_url = short_url
      and summary_type = "''short''" and bullet_count = None and s = init_state
      and tv = "''Demo''" and dv = "''A demo video''"] p demo_clean
  have "map_sum id resp_metadata_only (fst (summarize_youtube world_metadata short_url ''short'' None init_state))
       = Inr False
   \<and> map_sum id resp_warning (fst (summarize_youtube world_metadata short_url ''short'' None init_state))
       = Inr None"
    by blast
  with p show ?thesis by (simp add: youtube_start_def)
qed

text \<open>
  The claim as stated fails for a video whose title contains the phrase: the request is
  answered by the two-field fallback, and the response has \<open>metadata_only = True\<close> and
  a warning.
\<close>

theorem metadata_only_flag_counterexample:
  "fst (extract_transcript_from_youtube world_noted short_url youtube_start)
     = Inr (metadata_text ''Note: Transcript/subtitles were not available'' ''A demo video'')
   \<and> map_sum id resp_metadata_only (fst (summarize_youtube world_noted short_url ''short'' None init_state))
       = Inr True
   \<and> map_sum id resp_warning (fst (summarize_youtube world_noted short_url ''short'' None init_state))
       = Inr (Some warning_text)"
proof -
  have p: "fst (extract_transcript_from_youtube world_noted short_url
      (log_line (LogProcessingYoutube (take 50 short_url) ''short'') init_state))
     = Inr (metadata_text ''Note: Transcript/subtitles were not available'' ''A demo video'')"
    using two_field_answer [OF noted_request_stage1 noted_request_stage2 noted_request_stage3] by (simp add: youtube_start_def)
  have f: "is_metadata_only (metadata_text ''Note: Transcript/subtitles were not available'' ''A demo video'')"
    unfolding metadata_text_flag by (simp add: contains_def disclaimer_phrase_def)
  from summarize_youtube_response [OF p strip_metadata_text, of None] f
  obtain r where "fst (summarize_youtube world_noted short_url ''short'' None init_state) = Inr r"
      "resp_metadata_only r = True" "resp_warning r = Some warning_text"
    by auto
  with p show ?thesis by (simp add: youtube_start_def)
qed

end
